theory Spec2Isabelle
  imports Complex_Main
begin

section \<open>Python values\<close>

text \<open>
  A Python \<open>str\<close> is a sequence of Unicode code points, so text is modelled as a list of
  code points (natural numbers); an 8-bit \<open>char\<close> could not hold the non-ASCII letters that
  Python's regular expressions treat specially. \<open>lit\<close> turns an ASCII literal of the
  source into such a list.
\<close>

type_synonym pystr = "nat list"

definition lit :: "string \<Rightarrow> pystr" where
  "lit s = map of_char s"

text \<open>
  Decoded JSON and the dictionaries built by the code. A dictionary is an association
  list in insertion order; JSON numbers are rationals.
\<close>

datatype pyval =
    PNone
  | PBool bool
  | PNum rat
  | PStr pystr
  | PList "pyval list"
  | PDict "(pystr \<times> pyval) list"

text \<open>Python truthiness, as used by \<open>if response:\<close>.\<close>

fun truthy :: "pyval \<Rightarrow> bool" where
  "truthy PNone = False"
| "truthy (PBool b) = b"
| "truthy (PNum n) = (n \<noteq> 0)"
| "truthy (PStr s) = (s \<noteq> [])"
| "truthy (PList xs) = (xs \<noteq> [])"
| "truthy (PDict kvs) = (kvs \<noteq> [])"

text \<open>
  Exceptions derived from \<open>Exception\<close> that the code distinguishes in its handlers.
  \<open>asyncio.CancelledError\<close> and the other \<open>BaseException\<close>s are outside the model.
\<close>

datatype exn =
    ClientError pystr
  | TimeoutError
  | KeyError pystr
  | AttributeError pystr
  | TypeError pystr
  | OtherError pystr

section \<open>RegistryClient (src/nest/registry.py)\<close>

text \<open>
  What one HTTP request can end in: a response with a status, the outcome of
  \<open>response.json()\<close> and the outcome of \<open>response.text()\<close> (either may raise while
  the body is read), or an exception raised by the request itself.
\<close>

datatype http_outcome =
    Response nat "exn + pyval" "exn + pystr"
  | Raises exn

text \<open>The registry server as the client sees it: the outcome of the n-th request sent.\<close>

type_synonym registry = "nat \<Rightarrow> http_outcome"

text \<open>
  Observable effects of the client, in the order they happen: a request sent (HTTP method and
  endpoint), a call of \<open>asyncio.sleep\<close> with its delay, and a structured audit event
  (operation and status).
\<close>

datatype event =
    Sent pystr pystr
  | Slept rat
  | Audit pystr pystr

text \<open>
  The constructor arguments of the client that never change, and its mutable state.
  \<open>retry_delay\<close> is a Python float; the backoff only multiplies it by powers of two,
  which is modelled on rationals.
\<close>

record client_cfg =
  registry_url :: pystr
  agent_id :: pystr
  max_retries :: int
  retry_delay :: rat

record client =
  registered :: bool
  trace :: "event list"

fun is_Sent :: "event \<Rightarrow> bool" where
  "is_Sent (Sent m e) = True"
| "is_Sent (Slept d) = False"
| "is_Sent (Audit op s) = False"

definition sent :: "client \<Rightarrow> nat" where
  "sent st = length (filter is_Sent (trace st))"

definition emit :: "event \<Rightarrow> client \<Rightarrow> client" where
  "emit e st = st\<lparr>trace := trace st @ [e]\<rparr>"

text \<open>
  Modelled from the spec: the audit-logging collaborator
  (\<open>src/services/logging_service.py\<close>, not among the sources) records one structured
  event per reported outcome and returns normally.
\<close>

definition log_nest_registry_operation :: "pystr \<Rightarrow> pystr \<Rightarrow> client \<Rightarrow> client" where
  "log_nest_registry_operation operation status st = emit (Audit operation status) st"

text \<open>
  The \<open>try\<close> block of \<open>_make_request\<close> on the outcome of one request: it returns a
  value (\<open>Inr (Some v)\<close>: the decoded body on 200 or 201, \<open>None\<close> on a status below
  500), reaches the retry test for a status of 500 or more (\<open>Inr None\<close>), or an
  exception is raised (\<open>Inl e\<close>).
\<close>

definition attempt :: "http_outcome \<Rightarrow> exn + pyval option" where
  "attempt outcome =
     (case outcome of
        Response status js tx \<Rightarrow>
          if status = 200 \<or> status = 201 then
            (case js of Inr result \<Rightarrow> Inr (Some result) | Inl e \<Rightarrow> Inl e)
          else
            (case tx of
               Inr error_text \<Rightarrow> if status \<ge> 500 then Inr None else Inr (Some PNone)
             | Inl e \<Rightarrow> Inl e)
      | Raises e \<Rightarrow> Inl e)"

text \<open>
  \<open>_make_request\<close> and \<open>_retry_request\<close> call each other. The result \<open>PNone\<close> is
  Python's \<open>None\<close>. The three handlers are tried in the order of the source:
  \<open>ClientError\<close>, \<open>asyncio.TimeoutError\<close>, \<open>Exception\<close>.
\<close>

function make_request ::
    "registry \<Rightarrow> client_cfg \<Rightarrow> client \<Rightarrow> pystr \<Rightarrow> pystr \<Rightarrow> nat \<Rightarrow> pyval \<times> client"
  and retry_request ::
    "registry \<Rightarrow> client_cfg \<Rightarrow> client \<Rightarrow> pystr \<Rightarrow> pystr \<Rightarrow> nat \<Rightarrow> pyval \<times> client"
where
  "make_request W cfg st http_method endpoint retry_count =
     (let st1 = emit (Sent http_method endpoint) st in
      case attempt (W (sent st)) of
        Inr (Some result) \<Rightarrow> (result, st1)
      | Inr None \<Rightarrow>
          if int retry_count < max_retries cfg
          then retry_request W cfg st1 http_method endpoint retry_count
          else (PNone, st1)
      | Inl (ClientError msg) \<Rightarrow>
          if int retry_count < max_retries cfg
          then retry_request W cfg st1 http_method endpoint retry_count
          else (PNone, st1)
      | Inl TimeoutError \<Rightarrow>
          if int retry_count < max_retries cfg
          then retry_request W cfg st1 http_method endpoint retry_count
          else (PNone, st1)
      | Inl e \<Rightarrow> (PNone, st1))"
| "retry_request W cfg st http_method endpoint retry_count0 =
     (let retry_count = retry_count0 + 1;
          delay = retry_delay cfg * 2 ^ (retry_count - 1);
          st1 = emit (Slept delay) st
      in make_request W cfg st1 http_method endpoint retry_count)"
  by pat_completeness auto
termination
  by (relation "measure (\<lambda>x. case x of
        Inl (W, cfg, st, m, e, rc) \<Rightarrow> 2 * nat (max_retries cfg - int rc)
      | Inr (W, cfg, st, m, e, rc) \<Rightarrow> 2 * nat (max_retries cfg - int rc - 1) + 1)")
     auto

declare make_request.simps [simp del] retry_request.simps [simp del]

definition register_agent ::
    "registry \<Rightarrow> client_cfg \<Rightarrow> client \<Rightarrow> pystr \<Rightarrow> pystr list \<Rightarrow> (pystr \<times> pyval) list
       \<Rightarrow> bool \<times> client" where
  "register_agent W cfg st agent_url capabilities metadata =
     (case make_request W cfg st (lit ''POST'') (lit ''/agents/register'') 0 of
        (response, st1) \<Rightarrow>
          if truthy response then
            (True, log_nest_registry_operation (lit ''register'') (lit ''success'')
                     (st1\<lparr>registered := True\<rparr>))
          else
            (False, log_nest_registry_operation (lit ''register'') (lit ''error'') st1))"

text \<open>
  \<open>key in v\<close> and \<open>v[key]\<close> for a string key, with the exceptions Python raises when
  \<open>v\<close> is not a container or not subscriptable by a string.
\<close>

fun substr :: "pystr \<Rightarrow> pystr \<Rightarrow> bool" where
  "substr k [] = (k = [])"
| "substr k (x # xs) = (take (length k) (x # xs) = k \<or> substr k xs)"

fun py_contains :: "pystr \<Rightarrow> pyval \<Rightarrow> exn + bool" where
  "py_contains key (PDict kvs) = Inr (key \<in> set (map fst kvs))"
| "py_contains key (PList xs) = Inr (PStr key \<in> set xs)"
| "py_contains key (PStr s) = Inr (substr key s)"
| "py_contains key PNone = Inl (TypeError (lit ''argument of type NoneType is not iterable''))"
| "py_contains key (PBool b) = Inl (TypeError (lit ''argument of type bool is not iterable''))"
| "py_contains key (PNum n) = Inl (TypeError (lit ''argument of type int is not iterable''))"

fun py_getitem :: "pyval \<Rightarrow> pystr \<Rightarrow> exn + pyval" where
  "py_getitem (PDict kvs) key =
     (case map_of kvs key of Some v \<Rightarrow> Inr v | None \<Rightarrow> Inl (KeyError key))"
| "py_getitem (PList xs) key = Inl (TypeError (lit ''list indices must be integers or slices, not str''))"
| "py_getitem (PStr s) key = Inl (TypeError (lit ''string indices must be integers, not str''))"
| "py_getitem PNone key = Inl (TypeError (lit ''NoneType object is not subscriptable''))"
| "py_getitem (PBool b) key = Inl (TypeError (lit ''bool object is not subscriptable''))"
| "py_getitem (PNum n) key = Inl (TypeError (lit ''int object is not subscriptable''))"

definition update_status ::
    "registry \<Rightarrow> client_cfg \<Rightarrow> client \<Rightarrow> pystr \<Rightarrow> bool \<times> client" where
  "update_status W cfg st status =
     (case make_request W cfg st (lit ''PUT'')
             (lit ''/agents/'' @ agent_id cfg @ lit ''/status'') 0 of
        (response, st1) \<Rightarrow> if truthy response then (True, st1) else (False, st1))"

text \<open>
  \<open>lookup_agent\<close>: an exception of the membership test or of the subscript is caught by
  the function's own \<open>except Exception\<close>, which reports an error and returns \<open>None\<close>.
\<close>

definition lookup_agent ::
    "registry \<Rightarrow> client_cfg \<Rightarrow> client \<Rightarrow> pystr \<Rightarrow> pyval \<times> client" where
  "lookup_agent W cfg st target =
     (case make_request W cfg st (lit ''GET'') (lit ''/agents/'' @ target) 0 of
        (response, st1) \<Rightarrow>
          (case (if truthy response then py_contains (lit ''agent_url'') response
                 else Inr False) of
             Inr True \<Rightarrow>
               (case py_getitem response (lit ''agent_url'') of
                  Inr agent_url \<Rightarrow>
                    (agent_url,
                     log_nest_registry_operation (lit ''lookup'') (lit ''success'') st1)
                | Inl e \<Rightarrow>
                    (PNone, log_nest_registry_operation (lit ''lookup'') (lit ''error'') st1))
           | Inr False \<Rightarrow>
               (PNone, log_nest_registry_operation (lit ''lookup'') (lit ''error'') st1)
           | Inl e \<Rightarrow>
               (PNone, log_nest_registry_operation (lit ''lookup'') (lit ''error'') st1)))"

definition deregister :: "registry \<Rightarrow> client_cfg \<Rightarrow> client \<Rightarrow> bool \<times> client" where
  "deregister W cfg st =
     (if \<not> registered st then (True, st)
      else
        case make_request W cfg st (lit ''DELETE'') (lit ''/agents/'' @ agent_id cfg) 0 of
          (response, st1) \<Rightarrow>
            if truthy response \<or> response = PNone then
              (True, log_nest_registry_operation (lit ''deregister'') (lit ''success'')
                       (st1\<lparr>registered := False\<rparr>))
            else
              (False, log_nest_registry_operation (lit ''deregister'') (lit ''error'') st1))"

definition is_registered :: "client \<Rightarrow> bool" where
  "is_registered st = registered st"

text \<open>A response that \<open>_make_request\<close> returns to its caller: status 200 or 201 with a
  body that decodes.\<close>

fun answered :: "http_outcome \<Rightarrow> pyval \<Rightarrow> bool" where
  "answered (Response status (Inr body) tx) v = ((status = 200 \<or> status = 201) \<and> body = v)"
| "answered (Response status (Inl e) tx) v = False"
| "answered (Raises e) v = False"

text \<open>
  What every result of \<open>_make_request\<close> satisfies: the registered flag is untouched, and
  a result other than \<open>None\<close> is the body of some request that was answered.
\<close>

definition ok_result :: "registry \<Rightarrow> client \<Rightarrow> pyval \<times> client \<Rightarrow> bool" where
  "ok_result W st r = (registered (snd r) = registered st \<and>
      (fst r = PNone \<or> (\<exists>k. answered (W (sent st + k)) (fst r))))"

text \<open>
  An outcome after which \<open>_make_request\<close> sends the request again while retries
  remain: a status of 500 or more, a \<open>ClientError\<close>, a timeout.
\<close>

definition retryable :: "http_outcome \<Rightarrow> bool" where
  "retryable outcome =
     (case attempt outcome of
        Inr None \<Rightarrow> True
      | Inr (Some v) \<Rightarrow> False
      | Inl (ClientError msg) \<Rightarrow> True
      | Inl TimeoutError \<Rightarrow> True
      | Inl e \<Rightarrow> False)"

text \<open>A registry that answers 500 to the first request and accepts every later one.\<close>

definition retry_registry :: registry where
  "retry_registry n =
     (if n = 0 then Response 500 (Inr PNone) (Inr (lit ''unavailable''))
      else Response 200 (Inr (PDict [(lit ''status'', PStr (lit ''registered''))])) (Inr []))"

text \<open>A registry that accepts the first request and answers 404 to every later one.\<close>

definition twice_registry :: registry where
  "twice_registry n =
     (if n = 0 then Response 200 (Inr (PDict [(lit ''status'', PStr (lit ''registered''))])) (Inr [])
      else Response 404 (Inr PNone) (Inr (lit ''not found'')))"

section \<open>Python's regular expressions and string methods\<close>

text \<open>
  The tables of the Unicode database that the model does not enumerate are a parameter:
  which code points from 128 on are alphanumeric (word characters of \<open>\w\<close>), what
  \<open>str.upper\<close> makes of them, and which of them are digits for \<open>str.isdigit\<close>.
  Everything about ASCII, and about the four non-ASCII letters U+0130, U+0131, U+017F and
  U+212A that \<open>[A-Z]\<close> and the letters i, s, k match under \<open>re.IGNORECASE\<close>, is
  written out.
\<close>

record ucd =
  u_word :: "nat \<Rightarrow> bool"
  u_upper :: "nat \<Rightarrow> pystr"
  u_digit :: "nat \<Rightarrow> bool"

definition upper_az :: "nat \<Rightarrow> bool" where
  "upper_az c = (65 \<le> c \<and> c \<le> 90)"

definition lower_az :: "nat \<Rightarrow> bool" where
  "lower_az c = (97 \<le> c \<and> c \<le> 122)"

definition digit :: "nat \<Rightarrow> bool" where
  "digit c = (48 \<le> c \<and> c \<le> 57)"

text \<open>The four non-ASCII letters that case-insensitive matching folds onto ASCII letters.\<close>

definition folded :: "nat \<Rightarrow> bool" where
  "folded c = (c = 304 \<or> c = 305 \<or> c = 383 \<or> c = 8490)"

text \<open>\<open>\s\<close> and the characters removed by \<open>str.strip()\<close>: the same set in Python 3.\<close>

definition is_space :: "nat \<Rightarrow> bool" where
  "is_space c = ((9 \<le> c \<and> c \<le> 13) \<or> (28 \<le> c \<and> c \<le> 32) \<or> c = 133 \<or> c = 160 \<or>
     c = 5760 \<or> (8192 \<le> c \<and> c \<le> 8202) \<or> c = 8232 \<or> c = 8233 \<or> c = 8239 \<or>
     c = 8287 \<or> c = 12288)"

text \<open>\<open>\w\<close>: alphanumeric or underscore.\<close>

definition is_word :: "ucd \<Rightarrow> nat \<Rightarrow> bool" where
  "is_word U c =
     (if c < 128 then upper_az c \<or> lower_az c \<or> digit c \<or> c = 95
      else if folded c then True
      else u_word U c)"

text \<open>\<open>[A-Z]\<close> when the pattern is compiled with \<open>re.IGNORECASE\<close>.\<close>

definition az_ci :: "nat \<Rightarrow> bool" where
  "az_ci c = (upper_az c \<or> lower_az c \<or> folded c)"

text \<open>
  A literal pattern character \<open>p\<close> under \<open>re.IGNORECASE\<close>, for \<open>p\<close> a lower-case
  ASCII letter or a character without case (the only literals of the patterns below).
\<close>

definition ci :: "nat \<Rightarrow> nat \<Rightarrow> bool" where
  "ci p c = (c = p \<or> (lower_az p \<and> c + 32 = p) \<or> (p = 105 \<and> (c = 304 \<or> c = 305)) \<or>
     (p = 115 \<and> c = 383) \<or> (p = 107 \<and> c = 8490))"

text \<open>\<open>.\<close> without \<open>re.DOTALL\<close>: anything but a newline.\<close>

definition dot :: "nat \<Rightarrow> bool" where
  "dot c = (c \<noteq> 10)"

definition strip :: "pystr \<Rightarrow> pystr" where
  "strip s = rev (dropWhile is_space (rev (dropWhile is_space s)))"

definition upper_cp :: "ucd \<Rightarrow> nat \<Rightarrow> pystr" where
  "upper_cp U c =
     (if lower_az c then [c - 32]
      else if c < 128 then [c]
      else if c = 305 then [73]
      else if c = 383 then [83]
      else if c = 304 \<or> c = 8490 then [c]
      else u_upper U c)"

definition py_upper :: "ucd \<Rightarrow> pystr \<Rightarrow> pystr" where
  "py_upper U s = concat (map (upper_cp U) s)"

definition py_isdigit :: "ucd \<Rightarrow> pystr \<Rightarrow> bool" where
  "py_isdigit U s = (s \<noteq> [] \<and> list_all (\<lambda>c. if c < 128 then digit c else u_digit U c) s)"

text \<open>
  The fragment of regular expressions that the patterns of the source use. Repetition
  applies to a single character class and is greedy; \<open>Grp n r\<close> is capturing group \<open>n\<close>;
  \<open>Bol\<close>, \<open>Eol\<close> and \<open>WordB\<close> are \<open>^\<close>, \<open>$\<close> and \<open>\b\<close>.
\<close>

datatype rx =
    Chr "nat \<Rightarrow> bool"
  | Rep "nat \<Rightarrow> bool" nat "nat option"
  | Seq rx rx
  | Alt rx rx
  | Grp nat rx
  | Eps
  | Bol
  | Eol
  | WordB "nat \<Rightarrow> bool"

text \<open>
  A position of the matcher: the character before it (\<open>None\<close> at the start of the
  string), the text from it on, and the groups captured so far.
\<close>

record mstate =
  prev :: "nat option"
  rest :: pystr
  groups :: "(nat \<times> pystr) list"

definition advance :: "nat \<Rightarrow> mstate \<Rightarrow> mstate" where
  "advance j st =
     st\<lparr>prev := (case rev (take j (rest st)) of [] \<Rightarrow> prev st | c # cs \<Rightarrow> Some c),
        rest := drop j (rest st)\<rparr>"

definition capture :: "nat \<Rightarrow> mstate \<Rightarrow> mstate \<Rightarrow> mstate" where
  "capture g st st' =
     st'\<lparr>groups := (g, take (length (rest st) - length (rest st')) (rest st)) # groups st'\<rparr>"

definition at_boundary :: "(nat \<Rightarrow> bool) \<Rightarrow> mstate \<Rightarrow> bool" where
  "at_boundary w st =
     ((case prev st of None \<Rightarrow> False | Some c \<Rightarrow> w c) \<noteq>
      (case rest st of [] \<Rightarrow> False | c # cs \<Rightarrow> w c))"

text \<open>
  All the ways a pattern matches at a position, in the order in which Python's
  backtracking matcher tries them: the longest repetition first, the left alternative
  first. The match that \<open>re\<close> reports is the first of the list.
\<close>

primrec ms :: "rx \<Rightarrow> mstate \<Rightarrow> mstate list" where
  "ms (Chr f) st =
     (case rest st of
        [] \<Rightarrow> []
      | x # xs \<Rightarrow> if f x then [st\<lparr>prev := Some x, rest := xs\<rparr>] else [])"
| "ms (Rep f m n) st =
     (let k = length (takeWhile f (rest st));
          hi = (case n of None \<Rightarrow> k | Some n' \<Rightarrow> min k n')
      in map (\<lambda>j. advance j st) (rev [m ..< Suc hi]))"
| "ms (Seq a b) st = concat (map (ms b) (ms a st))"
| "ms (Alt a b) st = ms a st @ ms b st"
| "ms (Grp g a) st = map (capture g st) (ms a st)"
| "ms Eps st = [st]"
| "ms Bol st = (if prev st = None then [st] else [])"
| "ms Eol st = (if rest st = [] \<or> rest st = [10] then [st] else [])"
| "ms (WordB w) st = (if at_boundary w st then [st] else [])"

definition seq :: "rx list \<Rightarrow> rx" where
  "seq rs = foldr Seq rs Eps"

text \<open>A literal word of a pattern compiled with \<open>re.IGNORECASE\<close>.\<close>

definition word_ci :: "string \<Rightarrow> rx" where
  "word_ci w = seq (map (\<lambda>p. Chr (ci p)) (lit w))"

definition first_match :: "rx \<Rightarrow> nat option \<Rightarrow> pystr \<Rightarrow> mstate option" where
  "first_match r p s =
     (case ms r \<lparr>prev = p, rest = s, groups = []\<rparr> of [] \<Rightarrow> None | m # others \<Rightarrow> Some m)"

text \<open>\<open>re.match\<close> tries the start of the string only; \<open>re.search\<close> every position from
  left to right.\<close>

definition re_match :: "rx \<Rightarrow> pystr \<Rightarrow> mstate option" where
  "re_match r s = first_match r None s"

fun search_from :: "rx \<Rightarrow> nat option \<Rightarrow> pystr \<Rightarrow> mstate option" where
  "search_from r p [] = first_match r p []"
| "search_from r p (x # xs) =
     (case first_match r p (x # xs) of
        Some m \<Rightarrow> Some m
      | None \<Rightarrow> search_from r (Some x) xs)"

definition re_search :: "rx \<Rightarrow> pystr \<Rightarrow> mstate option" where
  "re_search r s = search_from r None s"

text \<open>
  \<open>match.group(n)\<close>. Group 1 takes part in every match of the patterns below (lemma
  \<open>group_1_taken\<close>), so the value \<open>None\<close> that Python gives for a group that did not
  take part never arises; the model gives the empty string there.
\<close>

definition group :: "mstate \<Rightarrow> nat \<Rightarrow> pystr" where
  "group m g = (case map_of (groups m) g of Some t \<Rightarrow> t | None \<Rightarrow> [])"

text \<open>
  \<open>re.findall\<close> for a pattern with one group: the group of each match, the matches not
  overlapping, the search resuming where the previous match ended (one character
  further after an empty match).
\<close>

function findall_from :: "rx \<Rightarrow> nat option \<Rightarrow> pystr \<Rightarrow> pystr list" where
  "findall_from r p s =
     (case first_match r p s of
        Some m \<Rightarrow>
          group m 1 #
            (if length (rest m) < length s then findall_from r (prev m) (rest m)
             else (case s of [] \<Rightarrow> [] | x # xs \<Rightarrow> findall_from r (Some x) xs))
      | None \<Rightarrow> (case s of [] \<Rightarrow> [] | x # xs \<Rightarrow> findall_from r (Some x) xs))"
  by pat_completeness auto
termination
  by (relation "measure (\<lambda>(r, p, s). length s)") auto

declare findall_from.simps [simp del]

definition re_findall :: "rx \<Rightarrow> pystr \<Rightarrow> pystr list" where
  "re_findall r s = findall_from r None s"

section \<open>QueryParser (src/nest/query_parser.py)\<close>

text \<open>\<open>^\$?([A-Z]{1,5})$\<close>\<close>

definition direct_pattern :: rx where
  "direct_pattern =
     seq [Bol, Rep (\<lambda>c. c = 36) 0 (Some 1), Grp 1 (Rep upper_az 1 (Some 5)), Eol]"

text \<open>\<open>(?:analyze|check|look\s+at|review)\s+\$?([A-Z]{1,5})\b\<close>, case-insensitive\<close>

definition analyze_pattern :: "ucd \<Rightarrow> rx" where
  "analyze_pattern U =
     seq [Alt (word_ci ''analyze'')
           (Alt (word_ci ''check'')
             (Alt (seq [word_ci ''look'', Rep is_space 1 None, word_ci ''at''])
               (word_ci ''review''))),
          Rep is_space 1 None, Rep (\<lambda>c. c = 36) 0 (Some 1),
          Grp 1 (Rep az_ci 1 (Some 5)), WordB (is_word U)]"

text \<open>\<open>(?:what|how)(?:\s+is|\s+about|\'s)?\s+\$?([A-Z]{1,5})\b\<close>, case-insensitive\<close>

definition question_pattern :: "ucd \<Rightarrow> rx" where
  "question_pattern U =
     seq [Alt (word_ci ''what'') (word_ci ''how''),
          Alt (Alt (seq [Rep is_space 1 None, word_ci ''is''])
                (Alt (seq [Rep is_space 1 None, word_ci ''about''])
                  (seq [Chr (ci 39), word_ci ''s''])))
              Eps,
          Rep is_space 1 None, Rep (\<lambda>c. c = 36) 0 (Some 1),
          Grp 1 (Rep az_ci 1 (Some 5)), WordB (is_word U)]"

text \<open>\<open>(?:tell\s+me\s+about|give\s+me\s+info\s+on|show\s+me|info\s+on)\s+\$?([A-Z]{1,5})\b\<close>,
  case-insensitive\<close>

definition info_pattern :: "ucd \<Rightarrow> rx" where
  "info_pattern U =
     seq [Alt (seq [word_ci ''tell'', Rep is_space 1 None, word_ci ''me'',
                    Rep is_space 1 None, word_ci ''about''])
           (Alt (seq [word_ci ''give'', Rep is_space 1 None, word_ci ''me'',
                      Rep is_space 1 None, word_ci ''info'', Rep is_space 1 None,
                      word_ci ''on''])
             (Alt (seq [word_ci ''show'', Rep is_space 1 None, word_ci ''me''])
               (seq [word_ci ''info'', Rep is_space 1 None, word_ci ''on'']))),
          Rep is_space 1 None, Rep (\<lambda>c. c = 36) 0 (Some 1),
          Grp 1 (Rep az_ci 1 (Some 5)), WordB (is_word U)]"

text \<open>\<open>\b\$?([A-Z]{1,5})\b\<close>, case-sensitive\<close>

definition generic_pattern :: "ucd \<Rightarrow> rx" where
  "generic_pattern U =
     seq [WordB (is_word U), Rep (\<lambda>c. c = 36) 0 (Some 1),
          Grp 1 (Rep upper_az 1 (Some 5)), WordB (is_word U)]"

definition common_words :: "pystr list" where
  "common_words = map lit
     [''I'', ''A'', ''AN'', ''THE'', ''IS'', ''ARE'', ''WAS'', ''WERE'', ''BE'', ''BEEN'',
      ''HAVE'', ''HAS'', ''HAD'', ''DO'', ''DOES'', ''DID'', ''WILL'', ''WOULD'', ''CAN'',
      ''COULD'', ''MAY'', ''MIGHT'', ''MUST'', ''SHALL'', ''SHOULD'', ''AM'', ''OR'',
      ''AND'', ''BUT'', ''IF'', ''SO'', ''AS'', ''AT'', ''BY'', ''FOR'', ''IN'', ''OF'',
      ''ON'', ''TO'', ''UP'', ''IT'', ''ME'', ''MY'', ''WE'', ''US'', ''YOU'', ''HE'', ''SHE'',
      ''HELLO'', ''HI'', ''THANKS'', ''THANK'', ''PLEASE'', ''YES'', ''NO'', ''OK'', ''OKAY'']"

text \<open>\<open>^[A-Z][A-Z0-9.]{0,4}$\<close>\<close>

definition ticker_pattern :: rx where
  "ticker_pattern =
     seq [Bol, Chr upper_az, Rep (\<lambda>c. upper_az c \<or> digit c \<or> c = 46) 0 (Some 4), Eol]"

definition is_valid_ticker :: "ucd \<Rightarrow> pystr \<Rightarrow> bool" where
  "is_valid_ticker U ticker0 =
     (if ticker0 = [] then False
      else
        let ticker = py_upper U (strip ticker0) in
        if length ticker < 1 \<or> length ticker > 5 then False
        else if re_match ticker_pattern ticker = None then False
        else if py_isdigit U (filter (\<lambda>c. c \<noteq> 46) ticker) then False
        else True)"

text \<open>The loop over the matches of the generic pattern: the first one that is not a
  common word and is a valid ticker.\<close>

fun first_ticker :: "ucd \<Rightarrow> pystr list \<Rightarrow> pystr option" where
  "first_ticker U [] = None"
| "first_ticker U (m # matches) =
     (let ticker = py_upper U m in
      if ticker \<notin> set common_words \<and> is_valid_ticker U ticker then Some ticker
      else first_ticker U matches)"

definition extract_ticker_from_query :: "ucd \<Rightarrow> pystr \<Rightarrow> pystr option" where
  "extract_ticker_from_query U query0 =
     (if query0 = [] then None
      else
        let query = strip query0 in
        case re_match direct_pattern query of
          Some m \<Rightarrow> Some (py_upper U (group m 1))
        | None \<Rightarrow>
        (case re_search (analyze_pattern U) query of
          Some m \<Rightarrow> Some (py_upper U (group m 1))
        | None \<Rightarrow>
        (case re_search (question_pattern U) query of
          Some m \<Rightarrow> Some (py_upper U (group m 1))
        | None \<Rightarrow>
        (case re_search (info_pattern U) query of
          Some m \<Rightarrow> Some (py_upper U (group m 1))
        | None \<Rightarrow> first_ticker U (re_findall (generic_pattern U) query)))))"

record query_intent =
  qi_ticker :: "pystr option"
  qi_intent :: pystr
  qi_valid :: bool
  qi_error :: "pystr option"

definition parse_query_intent :: "ucd \<Rightarrow> pystr \<Rightarrow> query_intent" where
  "parse_query_intent U query =
     (let result = \<lparr>qi_ticker = None, qi_intent = lit ''analyze'', qi_valid = False,
                     qi_error = None\<rparr> in
      if query = [] then result\<lparr>qi_error := Some (lit ''Invalid query input'')\<rparr>
      else
        case extract_ticker_from_query U query of
          None \<Rightarrow>
            result\<lparr>qi_error := Some (lit ''No ticker symbol found in query''),
                   qi_intent := lit ''unknown''\<rparr>
        | Some ticker \<Rightarrow>
            if ticker = [] then
              result\<lparr>qi_error := Some (lit ''No ticker symbol found in query''),
                     qi_intent := lit ''unknown''\<rparr>
            else if \<not> is_valid_ticker U ticker then
              result\<lparr>qi_error := Some (lit ''Invalid ticker symbol: '' @ ticker),
                     qi_ticker := Some ticker\<rparr>
            else
              result\<lparr>qi_ticker := Some ticker, qi_valid := True,
                     qi_intent := lit ''analyze''\<rparr>)"

text \<open>Stand-ins for the Unicode tables in evaluated examples: no further word
  characters or digits, \<open>upper\<close> the identity.\<close>

definition ascii_ucd :: ucd where
  "ascii_ucd = \<lparr>u_word = (\<lambda>c. False), u_upper = (\<lambda>c. [c]), u_digit = (\<lambda>c. False)\<rparr>"

section \<open>StockAgentBridge (src/nest/bridge.py): mentions\<close>

text \<open>\<open>^@([\w-]+)\s+(.+)$\<close>, case-sensitive\<close>

definition mention_pattern :: "ucd \<Rightarrow> rx" where
  "mention_pattern U =
     seq [Bol, Chr (\<lambda>c. c = 64), Grp 1 (Rep (\<lambda>c. is_word U c \<or> c = 45) 1 None),
          Rep is_space 1 None, Grp 2 (Rep dot 1 None), Eol]"

definition parse_agent_mention :: "ucd \<Rightarrow> pystr \<Rightarrow> pystr option \<times> pystr" where
  "parse_agent_mention U message =
     (case re_match (mention_pattern U) (strip message) of
        Some m \<Rightarrow> (Some (group m 1), group m 2)
      | None \<Rightarrow> (None, message))"

text \<open>Whether a text begins with \<open>@\<close>.\<close>

definition begins_with_at :: "pystr \<Rightarrow> bool" where
  "begins_with_at s = (case s of [] \<Rightarrow> False | c # cs \<Rightarrow> c = 64)"

section \<open>MessageCodec (src/nest/message_formatter.py)\<close>

text \<open>
  The analysis result handed over by the analysis service. Its classes
  (\<open>src/models/analysis.py\<close>) are not among the sources; the records hold the attributes
  that the formatter reads: \<open>price_change_percentage\<close> is the value of
  \<open>get_price_change_percentage()\<close>, \<open>rec_value\<close> is \<open>recommendation.value\<close> of the
  recommendation. Floats are rationals here, and how Python prints them is a parameter.
\<close>

record market_data =
  current_price :: rat
  price_change_percentage :: rat

record investment_recommendation =
  rec_value :: pystr
  confidence_score :: rat
  key_factors :: "pystr list"
  risk_assessment :: pystr
  reasoning :: pystr

record stock_analysis =
  company_name :: pystr
  ticker :: pystr
  market_data :: "market_data option"
  recommendation :: "investment_recommendation option"
  summary :: "pystr option"

text \<open>
  What Python's formatting produces and the model does not compute: \<open>fixed n x\<close> is
  \<open>f"{x:.nf}"\<close>, and \<open>to_str v\<close> is \<open>str(v)\<close> for a value that is not a string.
\<close>

record rendering =
  fixed :: "nat \<Rightarrow> rat \<Rightarrow> pystr"
  to_str :: "pyval \<Rightarrow> pystr"

definition py_str :: "rendering \<Rightarrow> pyval \<Rightarrow> pystr" where
  "py_str R v = (case v of PStr s \<Rightarrow> s | _ \<Rightarrow> to_str R v)"

fun join :: "pystr \<Rightarrow> pystr list \<Rightarrow> pystr" where
  "join sep [] = []"
| "join sep [x] = x"
| "join sep (x # y # ys) = x @ sep @ join sep (y # ys)"

text \<open>\<open>d[key] = v\<close> on a dictionary: replace the value in place, or append the key.\<close>

fun dict_set :: "(pystr \<times> pyval) list \<Rightarrow> pystr \<Rightarrow> pyval \<Rightarrow> (pystr \<times> pyval) list" where
  "dict_set [] k v = [(k, v)]"
| "dict_set ((k', v') # kvs) k v =
     (if k' = k then (k, v) # kvs else (k', v') # dict_set kvs k v)"

text \<open>\<open>d.get(key, default)\<close> on a dictionary.\<close>

definition dict_get :: "(pystr \<times> pyval) list \<Rightarrow> pystr \<Rightarrow> pyval \<Rightarrow> pyval" where
  "dict_get kvs k dflt = (case map_of kvs k of Some v \<Rightarrow> v | None \<Rightarrow> dflt)"

text \<open>The tail shared by both formatters: the message dictionary around the text.\<close>

definition a2a_response ::
    "pystr list \<Rightarrow> pystr \<Rightarrow> pystr option \<Rightarrow> (pystr \<times> pyval) list" where
  "a2a_response text_parts conversation_id parent_message_id =
     (let response =
        [(lit ''role'', PStr (lit ''agent'')),
         (lit ''content'',
            PDict [(lit ''text'', PStr (join [10] text_parts)),
                   (lit ''type'', PStr (lit ''text''))]),
         (lit ''conversation_id'', PStr conversation_id)]
      in case parent_message_id of
           None \<Rightarrow> response
         | Some p \<Rightarrow>
             if p \<noteq> [] then dict_set response (lit ''parent_message_id'') (PStr p)
             else response)"

definition format_analysis_response ::
    "rendering \<Rightarrow> ucd \<Rightarrow> stock_analysis \<Rightarrow> pystr \<Rightarrow> pystr option \<Rightarrow> pystr
       \<Rightarrow> (pystr \<times> pyval) list" where
  "format_analysis_response R U analysis conversation_id parent_message_id agent =
     (let text_parts =
        [lit ''['' @ agent @ lit ''] '' @ company_name analysis @ lit '' ('' @
           ticker analysis @ lit '') Analysis:'', []]
        @ (case market_data analysis of
             None \<Rightarrow> []
           | Some md \<Rightarrow>
               let price_change = price_change_percentage md;
                   price_change_sign = (if price_change \<ge> 0 then lit ''+'' else [])
               in [lit ''Current Price: $'' @ fixed R 2 (current_price md) @ lit '' ('' @
                     price_change_sign @ fixed R 1 price_change @ lit ''%)''])
        @ (case recommendation analysis of
             None \<Rightarrow> []
           | Some rec \<Rightarrow>
               [lit ''AI Recommendation: '' @ py_upper U (rec_value rec) @
                  lit '' (Confidence: '' @ fixed R 0 (confidence_score rec) @ lit ''%)'', []]
               @ (if key_factors rec \<noteq> []
                  then lit ''Key Factors:'' # map (\<lambda>factor. [8226, 32] @ factor) (key_factors rec)
                  else [])
               @ [[], lit ''Risk Assessment: '' @ risk_assessment rec,
                  [], lit ''Reasoning: '' @ reasoning rec])
        @ (case summary analysis of
             None \<Rightarrow> []
           | Some s \<Rightarrow> if s \<noteq> [] then [[], lit ''Summary: '' @ s] else [])
      in a2a_response text_parts conversation_id parent_message_id)"

definition format_error_response ::
    "pystr \<Rightarrow> pystr \<Rightarrow> pystr option \<Rightarrow> pystr \<Rightarrow> pystr option \<Rightarrow> pystr list
       \<Rightarrow> (pystr \<times> pyval) list" where
  "format_error_response error_message conversation_id parent_message_id agent error_code
       suggestions =
     (let text_parts =
        [lit ''['' @ agent @ lit ''] '' @ [10060] @ lit '' Error: '' @ error_message]
        @ (case error_code of
             None \<Rightarrow> []
           | Some c \<Rightarrow> if c \<noteq> [] then [lit ''Error Code: '' @ c] else [])
        @ (if suggestions \<noteq> []
           then [[], lit ''Suggestions:''] @ map (\<lambda>suggestion. [8226, 32] @ suggestion) suggestions
           else [])
      in a2a_response text_parts conversation_id parent_message_id)"

record parsed_message =
  pm_query :: pyval
  pm_conversation_id :: pyval
  pm_message_id :: pyval
  pm_from_agent_id :: pyval
  pm_metadata :: pyval

text \<open>
  \<open>parse_a2a_message\<close>. \<open>metadata.get\<close> raises \<open>AttributeError\<close> when the metadata of
  the message is not a dictionary.
\<close>

definition parse_a2a_message :: "(pystr \<times> pyval) list \<Rightarrow> exn + parsed_message" where
  "parse_a2a_message message =
     (let parsed = \<lparr>pm_query = PStr [], pm_conversation_id = PStr [], pm_message_id = PNone,
                     pm_from_agent_id = PNone, pm_metadata = PDict []\<rparr>;
          parsed1 =
            (case map_of message (lit ''content'') of
               None \<Rightarrow> parsed
             | Some (PDict content) \<Rightarrow>
                 parsed\<lparr>pm_query := dict_get content (lit ''text'') (PStr [])\<rparr>
             | Some (PStr content) \<Rightarrow> parsed\<lparr>pm_query := PStr content\<rparr>
             | Some other \<Rightarrow> parsed);
          parsed2 =
            parsed1\<lparr>pm_conversation_id := dict_get message (lit ''conversation_id'') (PStr [])\<rparr>;
          parsed3 =
            parsed2\<lparr>pm_message_id :=
              (if truthy (dict_get message (lit ''message_id'') PNone)
               then dict_get message (lit ''message_id'') PNone
               else dict_get message (lit ''id'') PNone)\<rparr>
      in case map_of message (lit ''metadata'') of
           None \<Rightarrow> Inr parsed3
         | Some (PDict metadata) \<Rightarrow>
             Inr (parsed3\<lparr>pm_metadata := PDict metadata,
                         pm_from_agent_id := dict_get metadata (lit ''from_agent_id'') PNone\<rparr>)
         | Some other \<Rightarrow> Inl (AttributeError (lit ''object has no attribute get'')))"

text \<open>A stand-in for Python's formatting in evaluated examples; the texts it yields play
  no part in what the examples show.\<close>

definition blank_rendering :: rendering where
  "blank_rendering = \<lparr>fixed = (\<lambda>n x. []), to_str = (\<lambda>v. [])\<rparr>"

text \<open>An analysis for evaluated examples.\<close>

definition sample_analysis :: stock_analysis where
  "sample_analysis =
     \<lparr>company_name = lit ''Apple Inc.'', ticker = lit ''AAPL'', market_data = None,
      recommendation = Some \<lparr>rec_value = lit ''Buy'', confidence_score = 85,
        key_factors = [lit ''Strong earnings''], risk_assessment = lit ''Moderate'',
        reasoning = lit ''Solid fundamentals''\<rparr>,
      summary = Some (lit ''Good outlook'')\<rparr>"

section \<open>StockAgentBridge (src/nest/bridge.py): processing a query\<close>

text \<open>\<open>str(e)\<close> of an exception.\<close>

fun exn_str :: "exn \<Rightarrow> pystr" where
  "exn_str (ClientError msg) = msg"
| "exn_str TimeoutError = []"
| "exn_str (KeyError k) = [39] @ k @ [39]"
| "exn_str (AttributeError msg) = msg"
| "exn_str (TypeError msg) = msg"
| "exn_str (OtherError msg) = msg"

text \<open>The decimal digits of a number, as an f-string prints an \<open>int\<close>.\<close>

function dec :: "nat \<Rightarrow> pystr" where
  "dec n = (if n < 10 then [48 + n] else dec (n div 10) @ [48 + n mod 10])"
  by pat_completeness auto
termination
  by (relation "measure id") auto

declare dec.simps [simp del]

text \<open>\<open>v.get(key, default)\<close> and \<open>v[key] = x\<close> on an arbitrary value: only a
  dictionary has them.\<close>

fun py_get :: "pyval \<Rightarrow> pystr \<Rightarrow> pyval \<Rightarrow> exn + pyval" where
  "py_get (PDict kvs) key dflt = Inr (dict_get kvs key dflt)"
| "py_get v key dflt = Inl (AttributeError (lit ''object has no attribute get''))"

fun py_setitem :: "pyval \<Rightarrow> pystr \<Rightarrow> pyval \<Rightarrow> exn + pyval" where
  "py_setitem (PDict kvs) key x = Inr (PDict (dict_set kvs key x))"
| "py_setitem v key x = Inl (TypeError (lit ''object does not support item assignment''))"

text \<open>Sequencing of steps that may raise: the first exception ends the computation.\<close>

definition and_then :: "exn + 'a \<Rightarrow> ('a \<Rightarrow> exn + 'b) \<Rightarrow> exn + 'b" where
  "and_then r f = (case r of Inl e \<Rightarrow> Inl e | Inr v \<Rightarrow> f v)"

text \<open>
  The bridge: its agent id, its registry client (absent without a registry URL) and the
  timeout for outgoing messages in seconds.
\<close>

record bridge =
  bridge_agent_id :: pystr
  bridge_registry :: "(client_cfg \<times> client) option"
  message_timeout :: nat

text \<open>
  What the bridge meets outside: the registry server, the outcome of the POST to the peer
  agent's \<open>/a2a\<close> endpoint, and the analysis service
  (\<open>perform_complete_analysis(ticker, query_text)\<close>, which returns an analysis or raises).
  The bodies of the requests sent do not enter the model, so the conversation id that
  \<open>send_to_agent\<close> generates when it is given none is left out.
\<close>

record world =
  registry_server :: registry
  peer :: http_outcome
  perform_complete_analysis :: "pystr \<Rightarrow> pystr \<Rightarrow> exn + stock_analysis"

definition format_ticker_error :: "pystr option \<Rightarrow> pystr" where
  "format_ticker_error t =
     (case t of
        Some tk \<Rightarrow>
          if tk \<noteq> [] then
            [10060] @ lit '' Invalid ticker symbol '' @ [39] @ tk @ [39] @
            lit ''. Please provide a valid NASDAQ ticker symbol (1-5 letters).''
          else
            [10060] @ lit '' No ticker symbol found in your query. Please include a valid NASDAQ ticker symbol (e.g., AAPL, TSLA, MSFT).''
      | None \<Rightarrow>
          [10060] @ lit '' No ticker symbol found in your query. Please include a valid NASDAQ ticker symbol (e.g., AAPL, TSLA, MSFT).'')"

text \<open>
  \<open>send_to_agent\<close>. The inner \<open>try\<close> either returns a value or raises; its handlers
  are \<open>asyncio.TimeoutError\<close>, then \<open>ClientError\<close>; anything else reaches the outer
  \<open>except Exception\<close>. A target URL that is not a string has no \<open>rstrip\<close>.
\<close>

definition send_to_agent ::
    "world \<Rightarrow> bridge \<Rightarrow> pystr \<Rightarrow> pystr \<Rightarrow> pystr \<Rightarrow> pystr option \<Rightarrow> pyval" where
  "send_to_agent W b target_agent_id message conversation_id parent_message_id =
     (case bridge_registry b of
        None \<Rightarrow>
          PDict [(lit ''error'', PStr (lit ''Registry not configured'')),
                 (lit ''message'', PStr (lit
                    ''Cannot send messages to other agents without registry configuration''))]
      | Some (cfg, st) \<Rightarrow>
          let target_url = fst (lookup_agent (registry_server W) cfg st target_agent_id) in
          if \<not> truthy target_url then
            PDict [(lit ''error'', PStr (lit ''Agent not found'')),
                   (lit ''message'', PStr (lit ''Agent '' @ [39] @ target_agent_id @ [39] @
                      lit '' is not registered in the NANDA network''))]
          else
            case (case target_url of
                    PStr url \<Rightarrow>
                      (case peer W of
                         Raises e \<Rightarrow> Inl e
                       | Response status js tx \<Rightarrow>
                           if status = 200 then js
                           else
                             (case tx of
                                Inl e \<Rightarrow> Inl e
                              | Inr error_text \<Rightarrow>
                                  Inr (PDict
                                    [(lit ''error'', PStr (lit ''HTTP '' @ dec status)),
                                     (lit ''message'',
                                        PStr (lit ''Agent returned error: '' @ error_text))])))
                  | other \<Rightarrow> Inl (AttributeError (lit ''object has no attribute rstrip''))) of
              Inr result \<Rightarrow> result
            | Inl TimeoutError \<Rightarrow>
                PDict [(lit ''error'', PStr (lit ''Timeout'')),
                       (lit ''message'', PStr (lit ''Agent '' @ [39] @ target_agent_id @ [39] @
                          lit '' did not respond within '' @ dec (message_timeout b) @
                          lit '' seconds''))]
            | Inl (ClientError msg) \<Rightarrow>
                PDict [(lit ''error'', PStr (lit ''Connection error'')),
                       (lit ''message'', PStr (lit ''Failed to connect to agent '' @ [39] @
                          target_agent_id @ [39] @ lit '': '' @ msg))]
            | Inl e \<Rightarrow>
                PDict [(lit ''error'', PStr (lit ''Internal error'')),
                       (lit ''message'', PStr (lit ''Unexpected error: '' @ exn_str e))])"

text \<open>
  The forwarding branch of \<open>process_stock_query\<close>, which the source places before its
  \<open>try\<close>: an exception raised here leaves the method.
\<close>

definition process_forward ::
    "rendering \<Rightarrow> world \<Rightarrow> bridge \<Rightarrow> pystr \<Rightarrow> pystr \<Rightarrow> pystr \<Rightarrow> pystr option
       \<Rightarrow> exn + pyval" where
  "process_forward R W b target_agent_id remaining_query conversation_id parent_message_id =
     (let response = send_to_agent W b target_agent_id remaining_query conversation_id
                       parent_message_id in
      and_then (if truthy response then py_contains (lit ''error'') response else Inr False)
        (\<lambda>failed.
          if failed then
            and_then (py_getitem response (lit ''message''))
              (\<lambda>msg. Inr (PDict (format_error_response (py_str R msg) conversation_id
                 parent_message_id (bridge_agent_id b)
                 (Some (lit ''AGENT_COMMUNICATION_ERROR''))
                 [lit ''Verify that agent '' @ [39] @ target_agent_id @ [39] @
                    lit '' is registered and available'',
                  lit ''Try again later'',
                  lit ''Contact the agent administrator''])))
          else
            and_then
              (if truthy response then py_contains (lit ''content'') response else Inr False)
              (\<lambda>has_content.
                if has_content then
                  and_then (py_getitem response (lit ''content'')) (\<lambda>content.
                  and_then (py_get content (lit ''text'') (PStr [])) (\<lambda>original_text.
                  and_then (py_setitem content (lit ''text'')
                     (PStr (lit ''['' @ bridge_agent_id b @ lit ''] Forwarded to @'' @
                        target_agent_id @ lit '':'' @ [10, 10] @ py_str R original_text)))
                    (\<lambda>content'. py_setitem response (lit ''content'') content')))
                else if truthy response then Inr response
                else Inr (PDict (format_error_response
                   (lit ''No response received from agent '' @ [39] @ target_agent_id @ [39])
                   conversation_id parent_message_id (bridge_agent_id b)
                   (Some (lit ''NO_RESPONSE'')) [])))))"

text \<open>
  The \<open>try\<close> block of \<open>process_stock_query\<close> with its handlers. The exception of the
  analysis service is caught by the inner handler; nothing else in the block raises in
  the model, so the outer handler has no case here. A valid intent always carries a
  ticker (lemma \<open>valid_has_ticker\<close>).
\<close>

definition process_local ::
    "rendering \<Rightarrow> ucd \<Rightarrow> world \<Rightarrow> bridge \<Rightarrow> pystr \<Rightarrow> pystr \<Rightarrow> pystr option \<Rightarrow> pyval" where
  "process_local R U W b query conversation_id parent_message_id =
     (let query_intent = parse_query_intent U query in
      if \<not> qi_valid query_intent then
        PDict (format_error_response (format_ticker_error (qi_ticker query_intent))
          conversation_id parent_message_id (bridge_agent_id b) (Some (lit ''INVALID_QUERY''))
          [lit ''Provide a valid NASDAQ ticker symbol (e.g., AAPL, TSLA, MSFT)'',
           lit ''Use format: '' @ [39] @ lit ''analyze TICKER'' @ [39] @ lit '' or '' @ [39] @
             lit ''what about TICKER?'' @ [39]])
      else
        let tk = (case qi_ticker query_intent of Some t \<Rightarrow> t | None \<Rightarrow> lit ''None'') in
        case perform_complete_analysis W tk query of
          Inl analysis_error \<Rightarrow>
            PDict (format_error_response
              (lit ''Analysis failed for '' @ tk @ lit '': '' @ exn_str analysis_error)
              conversation_id parent_message_id (bridge_agent_id b)
              (Some (lit ''ANALYSIS_ERROR''))
              [lit ''Verify the ticker symbol is valid'', lit ''Try again later'',
               lit ''Contact support if the issue persists''])
        | Inr analysis \<Rightarrow>
            if recommendation analysis = None then
              PDict (format_error_response
                (lit ''Unable to complete analysis for '' @ tk @ lit ''. '' @
                   (case summary analysis of Some s \<Rightarrow> s | None \<Rightarrow> lit ''None''))
                conversation_id parent_message_id (bridge_agent_id b)
                (Some (lit ''ANALYSIS_FAILED''))
                [lit ''Verify the ticker symbol is correct'', lit ''Try again in a few moments'',
                 lit ''Check if the stock is actively traded''])
            else
              PDict (format_analysis_response R U analysis conversation_id
                parent_message_id (bridge_agent_id b)))"

text \<open>
  \<open>process_stock_query\<close>: \<open>Inl e\<close> is an exception that reaches the caller. The audit
  events are not part of the result and are left out.
\<close>

definition process_stock_query ::
    "rendering \<Rightarrow> ucd \<Rightarrow> world \<Rightarrow> bridge \<Rightarrow> pystr \<Rightarrow> pystr \<Rightarrow> pystr option
       \<Rightarrow> exn + pyval" where
  "process_stock_query R U W b query conversation_id parent_message_id =
     (case parse_agent_mention U query of
        (Some target_agent_id, remaining_query) \<Rightarrow>
          if target_agent_id \<noteq> [] then
            process_forward R W b target_agent_id remaining_query conversation_id
              parent_message_id
          else Inr (process_local R U W b query conversation_id parent_message_id)
      | (None, remaining_query) \<Rightarrow>
          Inr (process_local R U W b query conversation_id parent_message_id))"

text \<open>
  A bridge with a registry in which the agent "advisor" is registered, and a peer that
  answers the forwarded message with status 200 and the JSON body \<open>{"error": "busy"}\<close>.
\<close>

definition advisor_bridge :: bridge where
  "advisor_bridge =
     \<lparr>bridge_agent_id = lit ''nasdaq-stock-agent'',
      bridge_registry = Some
        (\<lparr>registry_url = lit ''http://registry:6900'', agent_id = lit ''nasdaq-stock-agent'',
          max_retries = 3, retry_delay = 1\<rparr>,
         \<lparr>registered = False, trace = []\<rparr>),
      message_timeout = 30\<rparr>"

definition advisor_world :: world where
  "advisor_world =
     \<lparr>registry_server =
        (\<lambda>n. Response 200
           (Inr (PDict [(lit ''agent_url'', PStr (lit ''http://advisor:6000''))])) (Inr [])),
      peer = Response 200 (Inr (PDict [(lit ''error'', PStr (lit ''busy''))])) (Inr []),
      perform_complete_analysis = (\<lambda>t q. Inl (OtherError (lit ''unavailable'')))\<rparr>"

section \<open>Adapter (src/nest/adapter.py): stopping and the heartbeat\<close>

record adapter =
  is_running :: bool
  adapter_client :: "(client_cfg \<times> client) option"

text \<open>
  \<open>stop_async\<close>: the guard, the flag, the deregistration. Stopping the NANDA adapter
  and closing the session have no effect in the model. Nothing here refers to the task
  that runs the heartbeat: \<open>start_async\<close> drops the result of \<open>asyncio.create_task\<close>.
\<close>

definition stop_async :: "registry \<Rightarrow> adapter \<Rightarrow> adapter" where
  "stop_async W a =
     (if \<not> is_running a then a
      else
        let a1 = a\<lparr>is_running := False\<rparr> in
        case adapter_client a1 of
          None \<Rightarrow> a1
        | Some (cfg, st) \<Rightarrow> a1\<lparr>adapter_client := Some (cfg, snd (deregister W cfg st))\<rparr>)"

text \<open>
  Where the coroutine \<open>_start_heartbeat\<close> can be when other code runs: suspended in
  \<open>await self.bridge.get_health_status()\<close>, in \<open>await
  self.registry_client.update_status(...)\<close>, in \<open>await asyncio.sleep(30)\<close> with the
  seconds still to pass, or returned.
\<close>

datatype hb_pc = AwaitHealth | AwaitUpdate | Sleeping nat | Finished

record heartbeat =
  hb_adapter :: adapter
  pc :: hb_pc
  update_calls :: nat

text \<open>\<open>while self._is_running:\<close> and, when the test passes, the start of the body.\<close>

definition loop_test :: "heartbeat \<Rightarrow> heartbeat" where
  "loop_test h = (if is_running (hb_adapter h) then h\<lparr>pc := AwaitHealth\<rparr>
                  else h\<lparr>pc := Finished\<rparr>)"

text \<open>The first run of the task: the guard on the registry client, then the loop.\<close>

definition start_heartbeat :: "adapter \<Rightarrow> heartbeat" where
  "start_heartbeat a =
     (if adapter_client a = None then \<lparr>hb_adapter = a, pc = Finished, update_calls = 0\<rparr>
      else loop_test \<lparr>hb_adapter = a, pc = AwaitHealth, update_calls = 0\<rparr>)"

text \<open>
  One step of the coroutine: the pending \<open>await\<close> completes and the code runs to the
  next one, or one second of the sleep passes. \<open>update_calls\<close> counts the calls of
  \<open>update_status\<close>; a failure of the call or of the health check is caught in the loop
  and changes nothing else.
\<close>

definition resume :: "heartbeat \<Rightarrow> heartbeat" where
  "resume h =
     (case pc h of
        AwaitHealth \<Rightarrow> h\<lparr>pc := AwaitUpdate, update_calls := update_calls h + 1\<rparr>
      | AwaitUpdate \<Rightarrow> h\<lparr>pc := Sleeping 30\<rparr>
      | Sleeping (Suc n) \<Rightarrow> h\<lparr>pc := Sleeping n\<rparr>
      | Sleeping 0 \<Rightarrow> loop_test h
      | Finished \<Rightarrow> h)"

text \<open>\<open>stop_async\<close> called while the heartbeat task is suspended.\<close>

definition stop_heartbeat :: "registry \<Rightarrow> heartbeat \<Rightarrow> heartbeat" where
  "stop_heartbeat W h = h\<lparr>hb_adapter := stop_async W (hb_adapter h)\<rparr>"

text \<open>A running adapter with a registry client, for evaluated examples.\<close>

definition running_adapter :: adapter where
  "running_adapter =
     \<lparr>is_running = True,
      adapter_client = Some
        (\<lparr>registry_url = lit ''http://registry:6900'', agent_id = lit ''nasdaq-stock-agent'',
          max_retries = 3, retry_delay = 1\<rparr>,
         \<lparr>registered = True, trace = []\<rparr>)\<rparr>"

section \<open>Auxiliary notions for the proofs\<close>

text \<open>Group 1 of a match holds between one and five characters of a class, all taken
  from a given set of characters.\<close>

definition captured :: "(nat \<Rightarrow> bool) \<Rightarrow> nat set \<Rightarrow> mstate \<Rightarrow> bool" where
  "captured f S m = (\<exists>t. map_of (groups m) 1 = Some t \<and> 1 \<le> length t \<and> length t \<le> 5 \<and>
      list_all f t \<and> set t \<subseteq> S)"

text \<open>The shape of an extracted ticker for a query \<open>q\<close>.\<close>

definition ticker_shape :: "pystr \<Rightarrow> pystr \<Rightarrow> bool" where
  "ticker_shape q t =
     (1 \<le> length t \<and> length t \<le> 5 \<and>
      list_all (\<lambda>c. upper_az c \<or> c = 304 \<or> c = 8490) t \<and>
      (304 \<notin> set q \<and> 8490 \<notin> set q \<longrightarrow> list_all upper_az t))"

text \<open>The first way in which a pattern matches at a position.\<close>

definition starts :: "rx \<Rightarrow> mstate \<Rightarrow> mstate \<Rightarrow> bool" where
  "starts r st m = (\<exists>zs. ms r st = m # zs)"

section \<open>Properties of the registry client\<close>

lemma sent_emit [simp]: "sent (emit e st) = (if is_Sent e then Suc (sent st) else sent st)"
  by (simp add: sent_def emit_def)

lemma registered_emit [simp]: "registered (emit e st) = registered st"
  by (simp add: emit_def)

lemma attempt_Some: "attempt outcome = Inr (Some v) \<Longrightarrow> v = PNone \<or> answered outcome v"
  by (auto simp: attempt_def split: http_outcome.splits sum.splits if_splits)

lemma ok_result_shift:
  assumes "ok_result W (emit (Sent m e) st) r" shows "ok_result W st r"
proof -
  from assms have reg: "registered (snd r) = registered st"
    and dis: "fst r = PNone \<or> (\<exists>k. answered (W (Suc (sent st) + k)) (fst r))"
    by (simp_all add: ok_result_def)
  from dis have "fst r = PNone \<or> (\<exists>k. answered (W (sent st + k)) (fst r))"
  proof
    assume "fst r = PNone" then show ?thesis by simp
  next
    assume "\<exists>k. answered (W (Suc (sent st) + k)) (fst r)"
    then obtain k where "answered (W (sent st + Suc k)) (fst r)" by auto
    then show ?thesis by blast
  qed
  with reg show ?thesis by (simp add: ok_result_def)
qed

lemma ok_result_slept:
  "ok_result W (emit (Slept d) st) r \<Longrightarrow> ok_result W st r"
  unfolding ok_result_def by simp

lemma ok_result_none: "ok_result W st (PNone, emit e st)"
  by (simp add: ok_result_def)

lemma make_request_result:
  "ok_result W st (make_request W cfg st m ep rc)"
  "ok_result W st (retry_request W cfg st m ep rc)"
proof (induction W cfg st m ep rc and W cfg st m ep rc
       rule: make_request_retry_request.induct)
  case (1 W cfg st http_method endpoint retry_count)
  note IH = 1[OF refl]
  show ?case
  proof (cases "attempt (W (sent st))")
    case (Inr res)
    show ?thesis
    proof (cases res)
      case None
      with Inr IH(3) show ?thesis
        by (subst make_request.simps) (auto simp: Let_def ok_result_none intro: ok_result_shift)
    next
      case (Some v)
      with Inr attempt_Some[of "W (sent st)" v] show ?thesis
        by (subst make_request.simps) (auto simp: Let_def ok_result_def intro: exI[of _ 0])
    qed
  next
    case (Inl e)
    with IH(1,2) show ?thesis
      by (subst make_request.simps)
         (cases e; auto simp: Let_def ok_result_none intro: ok_result_shift)
  qed
next
  case (2 W cfg st http_method endpoint retry_count0)
  then show ?case
    by (subst retry_request.simps) (auto simp: Let_def intro: ok_result_slept)
qed

lemma register_agent_trace_500:
  "register_agent (\<lambda>n. Response 500 js (Inr tx))
      \<lparr>registry_url = u, agent_id = a, max_retries = 3, retry_delay = 1\<rparr> st url caps md
   = (False, st\<lparr>trace := trace st @
        [Sent (lit ''POST'') (lit ''/agents/register''), Slept 1,
         Sent (lit ''POST'') (lit ''/agents/register''), Slept 2,
         Sent (lit ''POST'') (lit ''/agents/register''), Slept 4,
         Sent (lit ''POST'') (lit ''/agents/register''),
         Audit (lit ''register'') (lit ''error'')]\<rparr>)"
  by (simp add: register_agent_def make_request.simps retry_request.simps attempt_def
        log_nest_registry_operation_def emit_def Let_def)

lemma register_agent_trace_4xx:
  "400 \<le> s \<Longrightarrow> s < 500 \<Longrightarrow> W (sent st) = Response s js (Inr tx) \<Longrightarrow>
   register_agent W cfg st url caps md
   = (False, st\<lparr>trace := trace st @
        [Sent (lit ''POST'') (lit ''/agents/register''),
         Audit (lit ''register'') (lit ''error'')]\<rparr>)"
  by (simp add: register_agent_def make_request.simps attempt_def
        log_nest_registry_operation_def emit_def Let_def)

text \<open>
  C3: against a registry that answers HTTP 500 to every request, \<open>register_agent\<close> with
  \<open>max_retries = 3\<close> and \<open>retry_delay = 1\<close> sends exactly four requests, sleeps 1, 2
  and 4 seconds between consecutive requests, reports one error and returns False; a
  response with a 4xx status is not retried: one request, then False.
\<close>

theorem register_agent_backoff:
  "register_agent (\<lambda>n. Response 500 js (Inr tx))
      \<lparr>registry_url = u, agent_id = a, max_retries = 3, retry_delay = 1\<rparr> st url caps md
   = (False, st\<lparr>trace := trace st @
        [Sent (lit ''POST'') (lit ''/agents/register''), Slept 1,
         Sent (lit ''POST'') (lit ''/agents/register''), Slept 2,
         Sent (lit ''POST'') (lit ''/agents/register''), Slept 4,
         Sent (lit ''POST'') (lit ''/agents/register''),
         Audit (lit ''register'') (lit ''error'')]\<rparr>)
   \<and> (400 \<le> s \<and> s < 500 \<and> W (sent st') = Response s js' (Inr tx') \<longrightarrow>
        register_agent W cfg st' url' caps' md'
        = (False, st'\<lparr>trace := trace st' @
             [Sent (lit ''POST'') (lit ''/agents/register''),
              Audit (lit ''register'') (lit ''error'')]\<rparr>))"
  using register_agent_trace_500 register_agent_trace_4xx by blast

theorem register_agent_backoff_witness:
  "register_agent (\<lambda>n. Response 404 (Inr PNone) (Inr []))
      \<lparr>registry_url = [], agent_id = [], max_retries = 3, retry_delay = 1\<rparr>
      \<lparr>registered = False, trace = []\<rparr> [] [] []
   = (False, \<lparr>registered = False, trace =
        [Sent (lit ''POST'') (lit ''/agents/register''),
         Audit (lit ''register'') (lit ''error'')]\<rparr>)"
  using register_agent_backoff [where s = 404 and W = "\<lambda>n. Response 404 (Inr PNone) (Inr [])"
     and st' = "\<lparr>registered = False, trace = []\<rparr>" and js' = "Inr PNone" and tx' = "[]"
     and cfg = "\<lparr>registry_url = [], agent_id = [], max_retries = 3, retry_delay = 1\<rparr>"
     and url' = "[]" and caps' = "[]" and md' = "[]"]
  by (simp add: sent_def)

lemma make_request_first_answer:
  "answered (W (sent st)) body \<Longrightarrow>
   make_request W cfg st m ep rc = (body, emit (Sent m ep) st)"
  by (cases "W (sent st)")
     (auto simp: make_request.simps attempt_def Let_def split: sum.splits elim: answered.elims)

lemma make_request_retry_step:
  assumes "retryable (W (sent st))" "int rc < max_retries cfg"
  shows "make_request W cfg st m ep rc =
         make_request W cfg (emit (Slept (retry_delay cfg * 2 ^ rc)) (emit (Sent m ep) st)) m ep (Suc rc)"
proof -
  have r: "retry_request W cfg (emit (Sent m ep) st) m ep rc =
      make_request W cfg (emit (Slept (retry_delay cfg * 2 ^ rc)) (emit (Sent m ep) st)) m ep (Suc rc)"
    by (subst retry_request.simps) (simp add: Let_def)
  show ?thesis
    using assms
    by (subst make_request.simps)
       (auto simp: retryable_def Let_def r split: sum.splits option.splits exn.splits)
qed

lemma make_request_skip:
  "(\<forall>i<k. retryable (W (sent st + i))) \<Longrightarrow> int (rc + k) \<le> max_retries cfg \<Longrightarrow>
   \<exists>st'. sent st' = sent st + k \<and> registered st' = registered st \<and>
         make_request W cfg st m ep rc = make_request W cfg st' m ep (rc + k)"
proof (induction k arbitrary: st rc)
  case 0
  then show ?case by auto
next
  case (Suc k)
  let ?st2 = "emit (Slept (retry_delay cfg * 2 ^ rc)) (emit (Sent m ep) st)"
  from Suc.prems(1) have r0: "retryable (W (sent st))" by (metis add.right_neutral zero_less_Suc)
  from Suc.prems(2) have lt: "int rc < max_retries cfg" by simp
  have step: "make_request W cfg st m ep rc = make_request W cfg ?st2 m ep (Suc rc)"
    using r0 lt by (rule make_request_retry_step)
  have s2: "sent ?st2 = Suc (sent st)" by simp
  have "\<forall>i<k. retryable (W (sent ?st2 + i))"
  proof (intro allI impI)
    fix i assume "i < k"
    then have "Suc i < Suc k" by simp
    with Suc.prems(1) have "retryable (W (sent st + Suc i))" by blast
    then show "retryable (W (sent ?st2 + i))" by (simp add: s2)
  qed
  moreover have "int (Suc rc + k) \<le> max_retries cfg" using Suc.prems(2) by simp
  ultimately obtain st' where st': "sent st' = sent ?st2 + k" "registered st' = registered ?st2"
    "make_request W cfg ?st2 m ep (Suc rc) = make_request W cfg st' m ep (Suc rc + k)"
    using Suc.IH[of ?st2 "Suc rc"] by blast
  from st' step have "sent st' = sent st + Suc k \<and> registered st' = registered st \<and>
      make_request W cfg st m ep rc = make_request W cfg st' m ep (rc + Suc k)"
    by (simp add: s2)
  then show ?case by blast
qed

lemma make_request_final:
  assumes "\<not> retryable (W (sent st)) \<or> max_retries cfg \<le> int rc"
  shows "make_request W cfg st m ep rc =
         ((case attempt (W (sent st)) of Inr (Some v) \<Rightarrow> v | Inr None \<Rightarrow> PNone | Inl e \<Rightarrow> PNone),
          emit (Sent m ep) st)"
  using assms
  by (subst make_request.simps)
     (auto simp: retryable_def Let_def split: sum.splits option.splits exn.splits)

lemma attempt_accepts:
  "(\<exists>body. answered outcome body \<and> truthy body) =
   (case attempt outcome of Inr (Some v) \<Rightarrow> truthy v | Inr None \<Rightarrow> False | Inl e \<Rightarrow> False)"
  by (cases outcome) (auto simp: attempt_def split: sum.splits elim: answered.elims)

lemma answered_not_retryable: "answered outcome body \<Longrightarrow> \<not> retryable outcome"
  by (cases outcome) (auto simp: retryable_def attempt_def split: sum.splits elim: answered.elims)

lemma register_agent_settled:
  assumes "\<forall>i<k. retryable (W (sent st + i))"
    and "k = 0 \<or> int k \<le> max_retries cfg"
    and "\<not> retryable (W (sent st + k)) \<or> max_retries cfg \<le> int k"
  shows "fst (register_agent W cfg st url caps md) =
           (\<exists>body. answered (W (sent st + k)) body \<and> truthy body)"
    and "fst (register_agent W cfg st url caps md) \<longrightarrow>
           registered (snd (register_agent W cfg st url caps md))"
    and "\<not> fst (register_agent W cfg st url caps md) \<longrightarrow>
           registered (snd (register_agent W cfg st url caps md)) = registered st"
proof -
  let ?m = "lit ''POST''" and ?e = "lit ''/agents/register''"
  have "\<exists>st'. sent st' = sent st + k \<and> registered st' = registered st \<and>
         make_request W cfg st ?m ?e 0 = make_request W cfg st' ?m ?e (0 + k)"
  proof (cases "k = 0")
    case True
    then show ?thesis by auto
  next
    case False
    with assms(2) have "int (0 + k) \<le> max_retries cfg" by simp
    with assms(1) show ?thesis by (rule make_request_skip)
  qed
  then obtain st' where st': "sent st' = sent st + k" "registered st' = registered st"
    "make_request W cfg st ?m ?e 0 = make_request W cfg st' ?m ?e k" by auto
  have fin: "make_request W cfg st' ?m ?e k =
         ((case attempt (W (sent st')) of Inr (Some v) \<Rightarrow> v | Inr None \<Rightarrow> PNone | Inl e \<Rightarrow> PNone),
          emit (Sent ?m ?e) st')"
    by (rule make_request_final) (use assms(3) st'(1) in simp)
  have mr: "make_request W cfg st ?m ?e 0 =
         ((case attempt (W (sent st + k)) of Inr (Some v) \<Rightarrow> v | Inr None \<Rightarrow> PNone | Inl e \<Rightarrow> PNone),
          emit (Sent ?m ?e) st')"
    using st'(3) fin st'(1) by simp
  show "fst (register_agent W cfg st url caps md) =
           (\<exists>body. answered (W (sent st + k)) body \<and> truthy body)"
    unfolding attempt_accepts
    by (simp add: register_agent_def mr log_nest_registry_operation_def
          split: sum.splits option.splits)
  show "fst (register_agent W cfg st url caps md) \<longrightarrow>
           registered (snd (register_agent W cfg st url caps md))"
    by (simp add: register_agent_def mr log_nest_registry_operation_def)
  show "\<not> fst (register_agent W cfg st url caps md) \<longrightarrow>
           registered (snd (register_agent W cfg st url caps md)) = registered st"
    by (simp add: register_agent_def mr log_nest_registry_operation_def st'(2))
qed

text \<open>
  C2, as amended: \<open>register_agent\<close> never raises (it is a total function in the model).
  The attempt that settles the call is the first one whose outcome is not retried (or the
  last one that the retry budget allows); the result is True exactly when that attempt is
  answered with status 200 or 201 and a truthy JSON body, and then the flag is set;
  otherwise the result is False and the flag is left as it was. In particular: an
  accepting answer to the first attempt, or to a later attempt after retried failures,
  gives True; a single answer with any other status below 500 (other 2xx such as 204
  included) gives False; a True result always comes from an accepting answer to one of
  the attempts.
\<close>

theorem register_agent_200_201:
  "(answered (W (sent st)) body \<and> truthy body \<longrightarrow>
      fst (register_agent W cfg st url caps md) \<and>
      registered (snd (register_agent W cfg st url caps md)))
   \<and> (fst (register_agent W cfg st url caps md) \<longrightarrow>
      registered (snd (register_agent W cfg st url caps md)) \<and>
      (\<exists>k b. answered (W (sent st + k)) b \<and> truthy b))
   \<and> (\<not> fst (register_agent W cfg st url caps md) \<longrightarrow>
      registered (snd (register_agent W cfg st url caps md)) = registered st)
   \<and> ((\<forall>i<k. retryable (W (sent st + i))) \<and> int k \<le> max_retries cfg \<and>
       answered (W (sent st + k)) body \<and> truthy body \<longrightarrow>
      fst (register_agent W cfg st url caps md) \<and>
      registered (snd (register_agent W cfg st url caps md)))
   \<and> (W (sent st) = Response s js (Inr tx) \<and> s \<noteq> 200 \<and> s \<noteq> 201 \<and> s < 500 \<longrightarrow>
      \<not> fst (register_agent W cfg st url caps md) \<and>
      registered (snd (register_agent W cfg st url caps md)) = registered st)
   \<and> ((\<forall>i<k. retryable (W (sent st + i))) \<and> (k = 0 \<or> int k \<le> max_retries cfg) \<and>
       (\<not> retryable (W (sent st + k)) \<or> max_retries cfg \<le> int k) \<longrightarrow>
      fst (register_agent W cfg st url caps md) =
        (\<exists>b. answered (W (sent st + k)) b \<and> truthy b))"
proof -
  let ?r = "register_agent W cfg st url caps md"
  obtain v st1 where mr: "make_request W cfg st (lit ''POST'') (lit ''/agents/register'') 0 = (v, st1)"
    by (cases "make_request W cfg st (lit ''POST'') (lit ''/agents/register'') 0")
  from make_request_result(1)[of W st cfg "lit ''POST''" "lit ''/agents/register''" 0] mr
  have reg: "registered st1 = registered st"
    and ans: "v = PNone \<or> (\<exists>k. answered (W (sent st + k)) v)"
    by (simp_all add: ok_result_def)
  have a: "answered (W (sent st)) body \<and> truthy body \<longrightarrow> fst ?r \<and> registered (snd ?r)"
    by (auto simp: register_agent_def make_request_first_answer log_nest_registry_operation_def)
  have b: "fst ?r \<longrightarrow> registered (snd ?r) \<and> (\<exists>k b. answered (W (sent st + k)) b \<and> truthy b)"
    using mr ans by (auto simp: register_agent_def log_nest_registry_operation_def split: if_splits)
  have c: "\<not> fst ?r \<longrightarrow> registered (snd ?r) = registered st"
    using mr reg by (auto simp: register_agent_def log_nest_registry_operation_def split: if_splits)
  have d: "(\<forall>i<k. retryable (W (sent st + i))) \<and> int k \<le> max_retries cfg \<and>
       answered (W (sent st + k)) body \<and> truthy body \<longrightarrow> fst ?r \<and> registered (snd ?r)"
  proof (intro impI, elim conjE)
    assume h: "\<forall>i<k. retryable (W (sent st + i))" "int k \<le> max_retries cfg"
      "answered (W (sent st + k)) body" "truthy body"
    from h(3) have nr: "\<not> retryable (W (sent st + k)) \<or> max_retries cfg \<le> int k"
      by (simp add: answered_not_retryable)
    from h(2) have k: "k = 0 \<or> int k \<le> max_retries cfg" by simp
    from register_agent_settled(1)[OF h(1) k nr, of url caps md] h(3,4) have "fst ?r" by blast
    with register_agent_settled(2)[OF h(1) k nr, of url caps md]
    show "fst ?r \<and> registered (snd ?r)" by blast
  qed
  have e: "W (sent st) = Response s js (Inr tx) \<and> s \<noteq> 200 \<and> s \<noteq> 201 \<and> s < 500 \<longrightarrow>
      \<not> fst ?r \<and> registered (snd ?r) = registered st"
  proof (intro impI, elim conjE)
    assume h: "W (sent st) = Response s js (Inr tx)" "s \<noteq> 200" "s \<noteq> 201" "s < 500"
    have h0: "\<forall>i<0::nat. retryable (W (sent st + i))" by simp
    have k0: "(0::nat) = 0 \<or> int 0 \<le> max_retries cfg" by simp
    from h have nr: "\<not> retryable (W (sent st + 0)) \<or> max_retries cfg \<le> int 0"
      by (simp add: retryable_def attempt_def)
    from h have na: "\<not> (\<exists>b. answered (W (sent st + 0)) b \<and> truthy b)"
      by (cases js) auto
    from register_agent_settled(1)[OF h0 k0 nr, of url caps md] na have "\<not> fst ?r" by blast
    with register_agent_settled(3)[OF h0 k0 nr, of url caps md]
    show "\<not> fst ?r \<and> registered (snd ?r) = registered st" by blast
  qed
  have f: "(\<forall>i<k. retryable (W (sent st + i))) \<and> (k = 0 \<or> int k \<le> max_retries cfg) \<and>
       (\<not> retryable (W (sent st + k)) \<or> max_retries cfg \<le> int k) \<longrightarrow>
      fst ?r = (\<exists>b. answered (W (sent st + k)) b \<and> truthy b)"
    using register_agent_settled(1)[of k W st cfg url caps md] by blast
  from a b c d e f show ?thesis by blast
qed

theorem register_agent_200_201_witness:
  "fst (register_agent (\<lambda>n. Response 201 (Inr (PDict [(lit ''status'', PStr (lit ''ok''))])) (Inr []))
      \<lparr>registry_url = [], agent_id = [], max_retries = 3, retry_delay = 1\<rparr>
      \<lparr>registered = False, trace = []\<rparr> [] [] [])
   \<and> registered (snd (register_agent (\<lambda>n. Response 201 (Inr (PDict [(lit ''status'', PStr (lit ''ok''))])) (Inr []))
      \<lparr>registry_url = [], agent_id = [], max_retries = 3, retry_delay = 1\<rparr>
      \<lparr>registered = False, trace = []\<rparr> [] [] []))
   \<and> fst (register_agent retry_registry
      \<lparr>registry_url = [], agent_id = [], max_retries = 3, retry_delay = 1\<rparr>
      \<lparr>registered = False, trace = []\<rparr> [] [] [])
   \<and> registered (snd (register_agent retry_registry
      \<lparr>registry_url = [], agent_id = [], max_retries = 3, retry_delay = 1\<rparr>
      \<lparr>registered = False, trace = []\<rparr> [] [] []))
   \<and> \<not> fst (register_agent (\<lambda>n. Response 404 (Inr PNone) (Inr []))
      \<lparr>registry_url = [], agent_id = [], max_retries = 3, retry_delay = 1\<rparr>
      \<lparr>registered = False, trace = []\<rparr> [] [] [])"
  using register_agent_200_201 [where W = "\<lambda>n. Response 201 (Inr (PDict [(lit ''status'', PStr (lit ''ok''))])) (Inr [])"
    and st = "\<lparr>registered = False, trace = []\<rparr>" and body = "PDict [(lit ''status'', PStr (lit ''ok''))]"
    and cfg = "\<lparr>registry_url = [], agent_id = [], max_retries = 3, retry_delay = 1\<rparr>"
    and url = "[]" and caps = "[]" and md = "[]" and k = 0 and s = 201 and js = "Inr PNone" and tx = "[]"]
    register_agent_200_201 [where W = retry_registry
    and st = "\<lparr>registered = False, trace = []\<rparr>"
    and body = "PDict [(lit ''status'', PStr (lit ''registered''))]"
    and cfg = "\<lparr>registry_url = [], agent_id = [], max_retries = 3, retry_delay = 1\<rparr>"
    and url = "[]" and caps = "[]" and md = "[]" and k = 1 and s = 500 and js = "Inr PNone"
    and tx = "lit ''unavailable''"]
    register_agent_200_201 [where W = "\<lambda>n. Response 404 (Inr PNone) (Inr [])"
    and st = "\<lparr>registered = False, trace = []\<rparr>" and body = PNone
    and cfg = "\<lparr>registry_url = [], agent_id = [], max_retries = 3, retry_delay = 1\<rparr>"
    and url = "[]" and caps = "[]" and md = "[]" and k = 0 and s = 404 and js = "Inr PNone" and tx = "[]"]
  by (simp add: sent_def retry_registry_def retryable_def attempt_def)

text \<open>
  C2 as stated fails: the status 204 is a 2xx, and the call returns False without
  setting the flag.
\<close>

theorem register_agent_204_counterexample:
  "register_agent (\<lambda>n. Response 204 (Inr (PDict [(lit ''status'', PStr (lit ''ok''))])) (Inr []))
      \<lparr>registry_url = [], agent_id = [], max_retries = 3, retry_delay = 1\<rparr>
      \<lparr>registered = False, trace = []\<rparr> [] [] []
   = (False, \<lparr>registered = False, trace =
        [Sent (lit ''POST'') (lit ''/agents/register''),
         Audit (lit ''register'') (lit ''error'')]\<rparr>)"
  by (simp add: register_agent_def make_request.simps attempt_def sent_def
        log_nest_registry_operation_def emit_def Let_def)

text \<open>
  C4, as amended: after a call of \<open>register_agent\<close> that returned True,
  \<open>is_registered\<close> is True; a call that returned False leaves the flag as it was before
  the call.
\<close>

theorem is_registered_after_register:
  "(fst (register_agent W cfg st url caps md) \<longrightarrow>
      is_registered (snd (register_agent W cfg st url caps md)))
   \<and> (\<not> fst (register_agent W cfg st url caps md) \<longrightarrow>
      is_registered (snd (register_agent W cfg st url caps md)) = is_registered st)"
proof -
  obtain v st1 where mr: "make_request W cfg st (lit ''POST'') (lit ''/agents/register'') 0 = (v, st1)"
    by (cases "make_request W cfg st (lit ''POST'') (lit ''/agents/register'') 0")
  from make_request_result(1)[of W st cfg "lit ''POST''" "lit ''/agents/register''" 0] mr
  have reg: "registered st1 = registered st"
    by (simp add: ok_result_def)
  show ?thesis
    using mr reg
    by (auto simp: register_agent_def is_registered_def log_nest_registry_operation_def)
qed

theorem is_registered_after_register_witness:
  "is_registered (snd (register_agent twice_registry
      \<lparr>registry_url = [], agent_id = [], max_retries = 3, retry_delay = 1\<rparr>
      \<lparr>registered = False, trace = []\<rparr> [] [] []))"
  using is_registered_after_register [where W = twice_registry
    and cfg = "\<lparr>registry_url = [], agent_id = [], max_retries = 3, retry_delay = 1\<rparr>"
    and st = "\<lparr>registered = False, trace = []\<rparr>" and url = "[]" and caps = "[]" and md = "[]"]
  by (simp add: register_agent_def make_request.simps attempt_def sent_def twice_registry_def
        log_nest_registry_operation_def emit_def Let_def)

text \<open>
  C4 as stated fails: a second call that returns False after a first successful one
  leaves \<open>is_registered\<close> True.
\<close>

theorem is_registered_stale_counterexample:
  "let cfg = \<lparr>registry_url = [], agent_id = [], max_retries = 3, retry_delay = 1\<rparr>;
       first = register_agent twice_registry cfg \<lparr>registered = False, trace = []\<rparr> [] [] [];
       second = register_agent twice_registry cfg (snd first) [] [] []
   in fst first \<and> \<not> fst second \<and> is_registered (snd second)"
  by (simp add: register_agent_def make_request.simps attempt_def sent_def twice_registry_def
        log_nest_registry_operation_def emit_def Let_def is_registered_def)

text \<open>
  C9: when the agent is registered and the DELETE request fails, that is
  \<open>_make_request\<close> yields \<open>None\<close> (in particular when no attempt is answered with 200
  or 201: transport error, timeout, any other status), \<open>deregister\<close> returns True and
  clears the flag; it returns False only when some attempt was answered with 200 or 201
  and a JSON body that is falsy but not \<open>null\<close>.
\<close>

theorem deregister_failed_delete:
  assumes "registered st"
  shows "(fst (make_request W cfg st (lit ''DELETE'') (lit ''/agents/'' @ agent_id cfg) 0) = PNone \<longrightarrow>
            fst (deregister W cfg st) \<and> \<not> registered (snd (deregister W cfg st)))
       \<and> ((\<forall>k v. \<not> answered (W (sent st + k)) v) \<longrightarrow>
            fst (deregister W cfg st) \<and> \<not> registered (snd (deregister W cfg st)))
       \<and> (\<not> fst (deregister W cfg st) \<longrightarrow>
            (\<exists>k body. answered (W (sent st + k)) body \<and> \<not> truthy body \<and> body \<noteq> PNone))"
proof -
  obtain v st1 where mr: "make_request W cfg st (lit ''DELETE'') (lit ''/agents/'' @ agent_id cfg) 0 = (v, st1)"
    by (cases "make_request W cfg st (lit ''DELETE'') (lit ''/agents/'' @ agent_id cfg) 0")
  from make_request_result(1)[of W st cfg "lit ''DELETE''" "lit ''/agents/'' @ agent_id cfg" 0] mr
  have ans: "v = PNone \<or> (\<exists>k. answered (W (sent st + k)) v)"
    by (simp add: ok_result_def)
  have a: "fst (make_request W cfg st (lit ''DELETE'') (lit ''/agents/'' @ agent_id cfg) 0) = PNone \<longrightarrow>
            fst (deregister W cfg st) \<and> \<not> registered (snd (deregister W cfg st))"
    using assms mr by (auto simp: deregister_def log_nest_registry_operation_def)
  have b: "(\<forall>k v. \<not> answered (W (sent st + k)) v) \<longrightarrow>
            fst (deregister W cfg st) \<and> \<not> registered (snd (deregister W cfg st))"
    using a ans mr by auto
  have c: "\<not> fst (deregister W cfg st) \<longrightarrow>
            (\<exists>k body. answered (W (sent st + k)) body \<and> \<not> truthy body \<and> body \<noteq> PNone)"
    using assms mr ans by (auto simp: deregister_def log_nest_registry_operation_def split: if_splits)
  from a b c show ?thesis by blast
qed

theorem deregister_failed_delete_witness:
  "registered \<lparr>registered = True, trace = []\<rparr>
   \<and> fst (deregister (\<lambda>n. Raises TimeoutError)
        \<lparr>registry_url = [], agent_id = lit ''stock-agent'', max_retries = 1, retry_delay = 1\<rparr>
        \<lparr>registered = True, trace = []\<rparr>)
   \<and> \<not> registered (snd (deregister (\<lambda>n. Raises TimeoutError)
        \<lparr>registry_url = [], agent_id = lit ''stock-agent'', max_retries = 1, retry_delay = 1\<rparr>
        \<lparr>registered = True, trace = []\<rparr>))"
  using deregister_failed_delete [where W = "\<lambda>n. Raises TimeoutError"
    and st = "\<lparr>registered = True, trace = []\<rparr>"
    and cfg = "\<lparr>registry_url = [], agent_id = lit ''stock-agent'', max_retries = 1, retry_delay = 1\<rparr>"]
  by simp

section \<open>Properties of the regular-expression matcher\<close>

lemmas cls_defs = upper_az_def lower_az_def digit_def folded_def is_space_def is_word_def
  az_ci_def ci_def dot_def

lemmas re_defs = seq_def word_ci_def first_match_def re_match_def re_search_def re_findall_def
  advance_def capture_def at_boundary_def group_def lit_def Let_def

lemmas qp_defs = extract_ticker_from_query_def strip_def direct_pattern_def analyze_pattern_def
  question_pattern_def info_pattern_def generic_pattern_def ticker_pattern_def
  is_valid_ticker_def parse_query_intent_def py_upper_def upper_cp_def py_isdigit_def
  common_words_def

lemma ms_rest_subset: "m \<in> set (ms r st) \<Longrightarrow> set (rest m) \<subseteq> set (rest st)"
proof (induction r arbitrary: st m)
  case (Chr f)
  then show ?case by (cases "rest st") (auto split: if_splits)
next
  case (Rep f lo hi)
  then show ?case by (auto simp: Let_def advance_def dest: in_set_dropD)
next
  case (Seq a b)
  from Seq.prems obtain st1 where "st1 \<in> set (ms a st)" and "m \<in> set (ms b st1)"
    by auto
  with Seq.IH(1)[of st1 st] Seq.IH(2)[of m st1] show ?case by blast
next
  case (Alt a b)
  from Alt.prems have "m \<in> set (ms a st) \<or> m \<in> set (ms b st)" by simp
  with Alt.IH show ?case by blast
next
  case (Grp g a)
  from Grp.prems obtain m1 where m1: "m1 \<in> set (ms a st)" and "m = capture g st m1"
    by auto
  then have "rest m = rest m1" by (simp add: capture_def)
  with Grp.IH[OF m1] show ?case by simp
qed (auto split: if_splits)

lemma ms_seq_append:
  "set (ms (seq (xs @ ys)) st) = (\<Union>st1 \<in> set (ms (seq xs) st). set (ms (seq ys) st1))"
  by (induction xs arbitrary: st) (auto simp: seq_def)

lemma list_all_take_takeWhile:
  "j \<le> length (takeWhile f xs) \<Longrightarrow> list_all f (take j xs)"
  by (induction xs arbitrary: j) (auto simp: take_Cons' split: if_splits)

lemma ms_group_rep:
  assumes "m \<in> set (ms (Grp 1 (Rep f 1 (Some 5))) st)"
  shows "captured f (set (rest st)) m"
proof -
  from assms obtain j where j: "1 \<le> j" "j \<le> 5" "j \<le> length (takeWhile f (rest st))"
    and m: "m = capture 1 st (advance j st)"
    by (auto simp: Let_def simp del: upt_Suc)
  from j(3) have jl: "j \<le> length (rest st)"
    using length_takeWhile_le[of f "rest st"] by linarith
  have g: "map_of (groups m) 1 = Some (take j (rest st))"
    using jl by (simp add: m capture_def advance_def)
  have "list_all f (take j (rest st))" using j(3) by (rule list_all_take_takeWhile)
  moreover have "set (take j (rest st)) \<subseteq> set (rest st)" by (rule set_take_subset)
  ultimately show ?thesis using g j jl by (auto simp: captured_def)
qed

lemma captured_mono: "captured f S m \<Longrightarrow> S \<subseteq> T \<Longrightarrow> captured f T m"
  by (auto simp: captured_def)

lemma ms_tail_captured:
  assumes "m \<in> set (ms (seq (xs @ [Grp 1 (Rep f 1 (Some 5)), t])) st)"
    and zw: "\<And>s m'. m' \<in> set (ms t s) \<Longrightarrow> m' = s"
  shows "captured f (set (rest st)) m"
proof -
  from assms(1) obtain st1 where st1: "st1 \<in> set (ms (seq xs) st)"
    and m: "m \<in> set (ms (seq [Grp 1 (Rep f 1 (Some 5)), t]) st1)"
    unfolding ms_seq_append by blast
  from m obtain m1 where m1: "m1 \<in> set (ms (Grp 1 (Rep f 1 (Some 5))) st1)"
    and "m \<in> set (ms t m1)"
    by (auto simp: seq_def simp del: ms.simps(2,5))
  with zw have "m = m1" by blast
  with m1 have "captured f (set (rest st1)) m" by (simp only: ms_group_rep)
  moreover have "set (rest st1) \<subseteq> set (rest st)" using st1 by (rule ms_rest_subset)
  ultimately show ?thesis by (rule captured_mono)
qed

lemma first_match_in: "first_match r p s = Some m \<Longrightarrow> m \<in> set (ms r \<lparr>prev = p, rest = s, groups = []\<rparr>)"
  by (auto simp: first_match_def split: list.splits)

lemma search_from_in:
  "search_from r p s = Some m \<Longrightarrow>
   \<exists>p' s'. set s' \<subseteq> set s \<and> m \<in> set (ms r \<lparr>prev = p', rest = s', groups = []\<rparr>)"
proof (induction s arbitrary: p)
  case Nil
  then show ?case by (auto dest: first_match_in)
next
  case (Cons x xs)
  show ?case
  proof (cases "first_match r p (x # xs)")
    case None
    with Cons.prems have "search_from r (Some x) xs = Some m" by simp
    from Cons.IH[OF this] obtain p' s' where
      "set s' \<subseteq> set xs" "m \<in> set (ms r \<lparr>prev = p', rest = s', groups = []\<rparr>)"
      by blast
    then show ?thesis by auto
  next
    case (Some m')
    with Cons.prems have "m' = m" by simp
    with Some show ?thesis by (blast dest: first_match_in)
  qed
qed

lemma findall_from_in:
  "t \<in> set (findall_from r p s) \<Longrightarrow>
   \<exists>m p' s'. set s' \<subseteq> set s \<and> m \<in> set (ms r \<lparr>prev = p', rest = s', groups = []\<rparr>) \<and> t = group m 1"
proof (induction r p s rule: findall_from.induct)
  case (1 r p s)
  show ?case
  proof (cases "first_match r p s")
    case None
    from "1.prems" None have t: "t \<in> set (case s of [] \<Rightarrow> [] | x # xs \<Rightarrow> findall_from r (Some x) xs)"
      by (subst (asm) findall_from.simps) simp
    show ?thesis
    proof (cases s)
      case Nil
      with t show ?thesis by simp
    next
      case (Cons x xs)
      with t have "t \<in> set (findall_from r (Some x) xs)" by simp
      from "1.IH"(1)[OF None Cons this] obtain m p' s' where
        "set s' \<subseteq> set xs" "m \<in> set (ms r \<lparr>prev = p', rest = s', groups = []\<rparr>)" "t = group m 1"
        by blast
      with Cons show ?thesis by auto
    qed
  next
    case (Some m)
    have mset: "set (rest m) \<subseteq> set s"
      using ms_rest_subset[OF first_match_in[OF Some]] by simp
    from "1.prems" Some have
      "t = group m 1 \<or>
       t \<in> set (if length (rest m) < length s then findall_from r (prev m) (rest m)
                 else (case s of [] \<Rightarrow> [] | x # xs \<Rightarrow> findall_from r (Some x) xs))"
      by (subst (asm) findall_from.simps) simp
    then show ?thesis
    proof
      assume "t = group m 1"
      with first_match_in[OF Some] show ?thesis by blast
    next
      assume t: "t \<in> set (if length (rest m) < length s then findall_from r (prev m) (rest m)
                 else (case s of [] \<Rightarrow> [] | x # xs \<Rightarrow> findall_from r (Some x) xs))"
      show ?thesis
      proof (cases "length (rest m) < length s")
        case True
        with t have "t \<in> set (findall_from r (prev m) (rest m))" by simp
        from "1.IH"(2)[OF Some True this] obtain m' p' s' where
          "set s' \<subseteq> set (rest m)" "m' \<in> set (ms r \<lparr>prev = p', rest = s', groups = []\<rparr>)"
          "t = group m' 1"
          by blast
        with mset show ?thesis by blast
      next
        case False
        show ?thesis
        proof (cases s)
          case Nil
          with t False show ?thesis by simp
        next
          case (Cons x xs)
          with t False have "t \<in> set (findall_from r (Some x) xs)" by simp
          from "1.IH"(3)[OF Some False Cons this] obtain m' p' s' where
            "set s' \<subseteq> set xs" "m' \<in> set (ms r \<lparr>prev = p', rest = s', groups = []\<rparr>)"
            "t = group m' 1"
            by blast
          with Cons show ?thesis by auto
        qed
      qed
    qed
  qed
qed

lemma zero_width_WordB: "m' \<in> set (ms (WordB w) s) \<Longrightarrow> m' = s"
  by (simp split: if_splits)

lemma zero_width_Eol: "m' \<in> set (ms Eol s) \<Longrightarrow> m' = s"
  by (simp split: if_splits)

lemma seq_split4: "seq [a, b, c, d] = seq ([a, b] @ [c, d])"
  by simp

lemma seq_split5: "seq [a, b, c, d, e] = seq ([a, b, c] @ [d, e])"
  by simp

lemma seq_split6: "seq [a, b, c, d, e, f] = seq ([a, b, c, d] @ [e, f])"
  by simp

lemma direct_captured:
  "m \<in> set (ms direct_pattern st) \<Longrightarrow> captured upper_az (set (rest st)) m"
  unfolding direct_pattern_def seq_split4
  by (erule ms_tail_captured) (rule zero_width_Eol)

lemma analyze_captured:
  "m \<in> set (ms (analyze_pattern U) st) \<Longrightarrow> captured az_ci (set (rest st)) m"
  unfolding analyze_pattern_def seq_split5
  by (erule ms_tail_captured) (rule zero_width_WordB)

lemma question_captured:
  "m \<in> set (ms (question_pattern U) st) \<Longrightarrow> captured az_ci (set (rest st)) m"
  unfolding question_pattern_def seq_split6
  by (erule ms_tail_captured) (rule zero_width_WordB)

lemma info_captured:
  "m \<in> set (ms (info_pattern U) st) \<Longrightarrow> captured az_ci (set (rest st)) m"
  unfolding info_pattern_def seq_split5
  by (erule ms_tail_captured) (rule zero_width_WordB)

lemma generic_captured:
  "m \<in> set (ms (generic_pattern U) st) \<Longrightarrow> captured upper_az (set (rest st)) m"
  unfolding generic_pattern_def seq_split4
  by (erule ms_tail_captured) (rule zero_width_WordB)

lemma captured_group:
  "captured f S m \<Longrightarrow>
   1 \<le> length (group m 1) \<and> length (group m 1) \<le> 5 \<and> list_all f (group m 1) \<and>
   set (group m 1) \<subseteq> S"
  by (auto simp: captured_def group_def)

lemma strip_subset: "set (strip s) \<subseteq> set s"
  by (auto simp: strip_def dest!: set_dropWhileD)

lemma py_upper_upper_az: "list_all upper_az g \<Longrightarrow> py_upper U g = g"
  by (induction g) (auto simp: py_upper_def upper_cp_def upper_az_def lower_az_def)

lemma py_upper_az_ci:
  "list_all az_ci g \<Longrightarrow>
   length (py_upper U g) = length g \<and>
   list_all (\<lambda>c. upper_az c \<or> c = 304 \<or> c = 8490) (py_upper U g) \<and>
   (304 \<notin> set g \<and> 8490 \<notin> set g \<longrightarrow> list_all upper_az (py_upper U g))"
  by (induction g)
     (auto simp: py_upper_def upper_cp_def az_ci_def upper_az_def lower_az_def folded_def)

lemma first_ticker_in:
  "first_ticker U matches = Some t \<Longrightarrow> \<exists>m \<in> set matches. t = py_upper U m"
  by (induction matches) (auto simp: Let_def split: if_splits)

lemma shape_upper:
  assumes "captured upper_az S m" "S \<subseteq> set q"
  shows "ticker_shape q (py_upper U (group m 1))"
proof -
  from captured_group[OF assms(1)] have g: "1 \<le> length (group m 1)" "length (group m 1) \<le> 5"
    "list_all upper_az (group m 1)" by simp_all
  from g(3) have "py_upper U (group m 1) = group m 1" by (rule py_upper_upper_az)
  with g show ?thesis by (auto simp: ticker_shape_def list_all_iff)
qed

lemma shape_az_ci:
  assumes "captured az_ci S m" "S \<subseteq> set q"
  shows "ticker_shape q (py_upper U (group m 1))"
proof -
  from captured_group[OF assms(1)] have g: "1 \<le> length (group m 1)" "length (group m 1) \<le> 5"
    "list_all az_ci (group m 1)" "set (group m 1) \<subseteq> S" by simp_all
  from g(4) assms(2) have "304 \<notin> set q \<and> 8490 \<notin> set q \<longrightarrow>
      304 \<notin> set (group m 1) \<and> 8490 \<notin> set (group m 1)" by blast
  with py_upper_az_ci[OF g(3), of U] g(1,2) show ?thesis
    by (simp add: ticker_shape_def)
qed

lemma extract_shape:
  assumes "extract_ticker_from_query U q = Some t"
  shows "ticker_shape q t"
proof -
  let ?s = "strip q"
  have sub: "set ?s \<subseteq> set q" by (rule strip_subset)
  have search: "\<And>r m f. re_search r ?s = Some m \<Longrightarrow>
      (\<And>st m. m \<in> set (ms r st) \<Longrightarrow> captured f (set (rest st)) m) \<Longrightarrow>
      \<exists>S. S \<subseteq> set q \<and> captured f S m"
  proof -
    fix r m f
    assume a: "re_search r ?s = Some m"
      and c: "\<And>st m. m \<in> set (ms r st) \<Longrightarrow> captured f (set (rest st)) m"
    from a obtain p' s' where s': "set s' \<subseteq> set ?s"
      and m: "m \<in> set (ms r \<lparr>prev = p', rest = s', groups = []\<rparr>)"
      unfolding re_search_def by (blast dest: search_from_in)
    from c[OF m] have "captured f (set s') m" by simp
    with s' sub show "\<exists>S. S \<subseteq> set q \<and> captured f S m" by blast
  qed
  from assms have q: "q \<noteq> []" by (auto simp: extract_ticker_from_query_def)
  show ?thesis
  proof (cases "re_match direct_pattern ?s")
    case (Some m)
    with assms q have t: "t = py_upper U (group m 1)"
      by (simp add: extract_ticker_from_query_def Let_def)
    from Some have "captured upper_az (set ?s) m"
      unfolding re_match_def by (auto dest!: first_match_in direct_captured)
    from this sub show ?thesis unfolding t by (rule shape_upper)
  next
    case n1: None
    show ?thesis
    proof (cases "re_search (analyze_pattern U) ?s")
      case (Some m)
      with assms q n1 have t: "t = py_upper U (group m 1)"
        by (simp add: extract_ticker_from_query_def Let_def)
      have "\<exists>S. S \<subseteq> set q \<and> captured az_ci S m"
        by (rule search[OF Some]) (rule analyze_captured)
      then obtain S where "captured az_ci S m" "S \<subseteq> set q" by blast
      then show ?thesis unfolding t by (rule shape_az_ci)
    next
      case n2: None
      show ?thesis
      proof (cases "re_search (question_pattern U) ?s")
        case (Some m)
        with assms q n1 n2 have t: "t = py_upper U (group m 1)"
          by (simp add: extract_ticker_from_query_def Let_def)
        have "\<exists>S. S \<subseteq> set q \<and> captured az_ci S m"
          by (rule search[OF Some]) (rule question_captured)
        then obtain S where "captured az_ci S m" "S \<subseteq> set q" by blast
        then show ?thesis unfolding t by (rule shape_az_ci)
      next
        case n3: None
        show ?thesis
        proof (cases "re_search (info_pattern U) ?s")
          case (Some m)
          with assms q n1 n2 n3 have t: "t = py_upper U (group m 1)"
            by (simp add: extract_ticker_from_query_def Let_def)
          have "\<exists>S. S \<subseteq> set q \<and> captured az_ci S m"
            by (rule search[OF Some]) (rule info_captured)
          then obtain S where "captured az_ci S m" "S \<subseteq> set q" by blast
          then show ?thesis unfolding t by (rule shape_az_ci)
        next
          case n4: None
          with assms q n1 n2 n3
          have "first_ticker U (re_findall (generic_pattern U) ?s) = Some t"
            by (simp add: extract_ticker_from_query_def Let_def)
          then obtain g where g: "g \<in> set (re_findall (generic_pattern U) ?s)"
            and t: "t = py_upper U g"
            by (blast dest: first_ticker_in)
          from g obtain m p' s' where s': "set s' \<subseteq> set ?s"
            and m: "m \<in> set (ms (generic_pattern U) \<lparr>prev = p', rest = s', groups = []\<rparr>)"
            and gm: "g = group m 1"
            unfolding re_findall_def by (blast dest: findall_from_in)
          from generic_captured[OF m] have "captured upper_az (set s') m" by simp
          moreover from s' sub have "set s' \<subseteq> set q" by blast
          ultimately show ?thesis unfolding t gm by (rule shape_upper)
        qed
      qed
    qed
  qed
qed

lemma upper_az_not_space: "upper_az c \<Longrightarrow> \<not> is_space c"
  by (auto simp: upper_az_def is_space_def)

lemma dropWhile_keep: "xs \<noteq> [] \<Longrightarrow> \<not> P (hd xs) \<Longrightarrow> dropWhile P xs = xs"
  by (cases xs) auto

lemma strip_id:
  assumes "t \<noteq> []" "\<not> is_space (hd t)" "\<not> is_space (last t)"
  shows "strip t = t"
proof -
  have a: "dropWhile is_space t = t" using assms(1,2) by (rule dropWhile_keep)
  have "dropWhile is_space (rev t) = rev t"
    using assms(1,3) by (intro dropWhile_keep) (simp_all add: hd_rev)
  with a show ?thesis by (simp add: strip_def)
qed

lemma strip_upper_az:
  assumes "list_all upper_az t" "t \<noteq> []"
  shows "strip t = t"
proof -
  from assms have "upper_az (hd t)" "upper_az (last t)" by (auto simp: list_all_iff)
  then show ?thesis using assms(2) by (intro strip_id upper_az_not_space) auto
qed

lemma takeWhile_all: "list_all f xs \<Longrightarrow> takeWhile f xs = xs"
  by (simp add: list_all_iff)

lemma rev_upt_Suc: "lo \<le> n \<Longrightarrow> rev [lo ..< Suc n] = n # rev [lo ..< n]"
  by simp

lemma starts_Seq: "starts a st x \<Longrightarrow> starts b x y \<Longrightarrow> starts (Seq a b) st y"
  by (auto simp: starts_def)

lemma starts_Grp: "starts a st x \<Longrightarrow> starts (Grp g a) st (capture g st x)"
  by (auto simp: starts_def)

lemma starts_Eps: "starts Eps st st"
  by (simp add: starts_def)

lemma starts_Bol: "prev st = None \<Longrightarrow> starts Bol st st"
  by (simp add: starts_def)

lemma starts_Eol: "rest st = [] \<Longrightarrow> starts Eol st st"
  by (simp add: starts_def)

lemma starts_Chr:
  "rest st = x # xs \<Longrightarrow> f x \<Longrightarrow> starts (Chr f) st (st\<lparr>prev := Some x, rest := xs\<rparr>)"
  by (simp add: starts_def)

lemma starts_Rep:
  assumes "k = length (takeWhile f (rest st))"
    and "n = (case hi of None \<Rightarrow> k | Some h \<Rightarrow> min k h)"
    and "lo \<le> n"
  shows "starts (Rep f lo hi) st (advance n st)"
proof -
  have "ms (Rep f lo hi) st = map (\<lambda>j. advance j st) (rev [lo ..< Suc n])"
    unfolding assms(1,2) by (simp only: ms.simps Let_def)
  also have "\<dots> = advance n st # map (\<lambda>j. advance j st) (rev [lo ..< n])"
    by (simp only: rev_upt_Suc[OF assms(3)] list.map)
  finally show ?thesis unfolding starts_def by blast
qed

lemma first_match_starts:
  "starts r \<lparr>prev = p, rest = s, groups = []\<rparr> m \<Longrightarrow> first_match r p s = Some m"
  by (auto simp: starts_def first_match_def)

lemma starts_group:
  assumes "list_all upper_az t" "1 \<le> length t" "length t \<le> 5" "rest st = t"
  shows "\<exists>m. starts (seq [Grp 1 (Rep upper_az 1 (Some 5)), Eol]) st m \<and> group m 1 = t"
proof -
  let ?a = "advance (length t) st"
  let ?m = "capture 1 st ?a"
  have tw: "length t = length (takeWhile upper_az (rest st))"
    using assms(1,4) by (simp add: takeWhile_all)
  have n: "length t = (case Some 5 of None \<Rightarrow> length t | Some h \<Rightarrow> min (length t) h)"
    using assms(3) by simp
  have "starts (Rep upper_az 1 (Some 5)) st ?a"
    using tw n assms(2) by (rule starts_Rep)
  then have g: "starts (Grp 1 (Rep upper_az 1 (Some 5))) st ?m" by (rule starts_Grp)
  have rm: "rest ?m = []" using assms(4) by (simp add: capture_def advance_def)
  have "starts (Seq Eol Eps) ?m ?m"
    by (rule starts_Seq[OF starts_Eol[OF rm] starts_Eps])
  with g have "starts (Seq (Grp 1 (Rep upper_az 1 (Some 5))) (Seq Eol Eps)) st ?m"
    by (rule starts_Seq)
  moreover have "group ?m 1 = t"
    using assms(4) by (simp add: group_def capture_def advance_def)
  ultimately show ?thesis by (auto simp: seq_def)
qed

lemma direct_match_upper:
  assumes "list_all upper_az t" "1 \<le> length t" "length t \<le> 5"
  shows "\<exists>m. re_match direct_pattern t = Some m \<and> group m 1 = t"
    and "\<exists>m. re_match direct_pattern (36 # t) = Some m \<and> group m 1 = t"
proof -
  from assms(2) obtain x xs where t: "t = x # xs" by (cases t) auto
  with assms(1) have x: "x \<noteq> 36" by (auto simp: upper_az_def)
  let ?D = "Rep (\<lambda>c. c = 36) 0 (Some 1)"
  let ?tail = "seq [Grp 1 (Rep upper_az 1 (Some 5)), Eol]"
  have pat: "direct_pattern = Seq Bol (Seq ?D ?tail)"
    by (simp add: direct_pattern_def seq_def)
  { fix s0 :: pystr and j :: nat
    assume tw: "length (takeWhile (\<lambda>c. c = 36) (rest \<lparr>prev = None, rest = s0, groups = []\<rparr>)) = j"
      and j1: "j \<le> 1" and dr: "drop j s0 = t"
    let ?st = "\<lparr>prev = None, rest = s0, groups = []\<rparr>"
    have n: "j = (case Some 1 of None \<Rightarrow> j | Some h \<Rightarrow> min j h)" using j1 by simp
    have d: "starts ?D ?st (advance j ?st)"
      using tw[symmetric] n by (rule starts_Rep) simp
    have "rest (advance j ?st) = t" using dr by (simp add: advance_def)
    from starts_group[OF assms this] obtain m where
      m: "starts ?tail (advance j ?st) m" and g: "group m 1 = t" by blast
    from d m have "starts (Seq ?D ?tail) ?st m" by (rule starts_Seq)
    with starts_Bol[of ?st] have "starts direct_pattern ?st m"
      unfolding pat by (auto intro: starts_Seq)
    then have "re_match direct_pattern s0 = Some m"
      unfolding re_match_def by (rule first_match_starts)
    with g have "\<exists>m. re_match direct_pattern s0 = Some m \<and> group m 1 = t" by blast
  } note main = this
  show "\<exists>m. re_match direct_pattern t = Some m \<and> group m 1 = t"
    by (rule main[of t 0]) (use x t in simp_all)
  show "\<exists>m. re_match direct_pattern (36 # t) = Some m \<and> group m 1 = t"
    by (rule main[of "36 # t" 1]) (use x t in simp_all)
qed

lemma extract_direct:
  assumes "list_all upper_az t" "1 \<le> length t" "length t \<le> 5"
  shows "extract_ticker_from_query U t = Some t"
    and "extract_ticker_from_query U (36 # t) = Some t"
proof -
  from assms(2) have ne: "t \<noteq> []" by auto
  have s1: "strip t = t" using assms(1) ne by (rule strip_upper_az)
  have s2: "strip (36 # t) = 36 # t"
  proof (rule strip_id)
    show "\<not> is_space (last (36 # t))"
      using ne assms(1) by (auto simp: list_all_iff intro!: upper_az_not_space)
  qed (simp_all add: is_space_def)
  have up: "py_upper U t = t" using assms(1) by (rule py_upper_upper_az)
  from direct_match_upper(1)[OF assms] obtain m where
    m: "re_match direct_pattern t = Some m" "group m (Suc 0) = t" by auto
  show "extract_ticker_from_query U t = Some t"
    using ne by (simp add: extract_ticker_from_query_def s1 m up Let_def)
  from direct_match_upper(2)[OF assms] obtain m' where
    m': "re_match direct_pattern (36 # t) = Some m'" "group m' (Suc 0) = t" by auto
  show "extract_ticker_from_query U (36 # t) = Some t"
    by (simp add: extract_ticker_from_query_def s2 m' up Let_def)
qed

lemma ticker_pattern_matches:
  assumes "list_all upper_az t" "1 \<le> length t" "length t \<le> 5"
  shows "re_match ticker_pattern t \<noteq> None"
proof -
  from assms(2) obtain x xs where t: "t = x # xs" by (cases t) auto
  let ?c = "\<lambda>c. upper_az c \<or> digit c \<or> c = 46"
  let ?st = "\<lparr>prev = None, rest = t, groups = []\<rparr>"
  let ?s1 = "?st\<lparr>prev := Some x, rest := xs\<rparr>"
  let ?s2 = "advance (length xs) ?s1"
  have "list_all ?c xs" using assms(1) t by (auto simp: list_all_iff)
  then have tw: "length xs = length (takeWhile ?c (rest ?s1))" by (simp add: takeWhile_all)
  have n: "length xs = (case Some 4 of None \<Rightarrow> length xs | Some h \<Rightarrow> min (length xs) h)"
    using assms(3) t by simp
  have a: "starts (Chr upper_az) ?st ?s1"
    by (rule starts_Chr) (use assms(1) t in simp_all)
  have b: "starts (Rep ?c 0 (Some 4)) ?s1 ?s2"
    using tw n by (rule starts_Rep) simp
  have c: "starts (Seq Eol Eps) ?s2 ?s2"
    by (rule starts_Seq[OF starts_Eol starts_Eps]) (simp add: advance_def)
  have "starts (Seq Bol (Seq (Chr upper_az) (Seq (Rep ?c 0 (Some 4)) (Seq Eol Eps)))) ?st ?s2"
    by (rule starts_Seq[OF starts_Bol], simp, rule starts_Seq[OF a], rule starts_Seq[OF b c])
  then have "starts ticker_pattern ?st ?s2" by (simp add: ticker_pattern_def seq_def)
  then show ?thesis unfolding re_match_def by (simp add: first_match_starts)
qed

lemma is_valid_upper_az:
  assumes "list_all upper_az t" "1 \<le> length t" "length t \<le> 5"
  shows "is_valid_ticker U t"
proof -
  from assms(2) obtain x xs where t: "t = x # xs" by (cases t) auto
  have s: "strip t = t" using assms(1) t by (intro strip_upper_az) auto
  have up: "py_upper U t = t" using assms(1) by (rule py_upper_upper_az)
  have f: "filter (\<lambda>c. c \<noteq> 46) t = t"
    using assms(1) by (auto simp: list_all_iff upper_az_def intro!: filter_True)
  have d: "\<not> py_isdigit U t"
    using assms(1) t by (auto simp: py_isdigit_def upper_az_def digit_def)
  have ne: "t \<noteq> []" using t by simp
  from ticker_pattern_matches[OF assms] show ?thesis
    using assms(2,3) ne by (simp add: is_valid_ticker_def s up f d Let_def)
qed

lemma group_1_taken:
  assumes "m \<in> set (ms direct_pattern st) \<or> m \<in> set (ms (analyze_pattern U) st) \<or>
     m \<in> set (ms (question_pattern U) st) \<or> m \<in> set (ms (info_pattern U) st) \<or>
     m \<in> set (ms (generic_pattern U) st)"
  shows "map_of (groups m) 1 \<noteq> None"
proof -
  from assms have "captured upper_az (set (rest st)) m \<or> captured az_ci (set (rest st)) m"
    by (blast dest: direct_captured analyze_captured question_captured info_captured
          generic_captured)
  then show ?thesis by (auto simp: captured_def)
qed

section \<open>Properties of the query parser and of the mention parser\<close>

lemma mention_needs_at:
  "re_match (mention_pattern U) s = Some m \<Longrightarrow> begins_with_at s"
  by (cases s)
     (auto simp: re_match_def first_match_def mention_pattern_def seq_def begins_with_at_def
           split: list.splits if_splits simp del: ms.simps(2,5))

text \<open>
  C5, as amended: \<open>parse_agent_mention\<close> maps "@financial-advisor Should I buy AAPL?" to
  ("financial-advisor", "Should I buy AAPL?") and "What about AAPL?" to (None, "What about
  AAPL?"). Parsing the remainder again finds no further mention when the first parse
  found none (the remainder is then the message itself), and whenever the remainder, once
  stripped, does not itself begin with \<open>@\<close>.
\<close>

theorem parse_agent_mention_examples:
  "parse_agent_mention U (lit ''@financial-advisor Should I buy AAPL?'') =
     (Some (lit ''financial-advisor''), lit ''Should I buy AAPL?'')
   \<and> parse_agent_mention U (lit ''What about AAPL?'') = (None, lit ''What about AAPL?'')
   \<and> (fst (parse_agent_mention U message) = None \<longrightarrow>
      parse_agent_mention U (snd (parse_agent_mention U message)) = (None, message))
   \<and> (\<not> begins_with_at (strip (snd (parse_agent_mention U message))) \<longrightarrow>
      fst (parse_agent_mention U (snd (parse_agent_mention U message))) = None)"
proof -
  have e1: "parse_agent_mention U (lit ''@financial-advisor Should I buy AAPL?'') =
     (Some (lit ''financial-advisor''), lit ''Should I buy AAPL?'')"
    by (simp add: parse_agent_mention_def mention_pattern_def strip_def cls_defs re_defs)
  have e2: "parse_agent_mention U (lit ''What about AAPL?'') = (None, lit ''What about AAPL?'')"
    by (simp add: parse_agent_mention_def mention_pattern_def strip_def cls_defs re_defs)
  have a: "fst (parse_agent_mention U message) = None \<longrightarrow>
      parse_agent_mention U (snd (parse_agent_mention U message)) = (None, message)"
    by (auto simp: parse_agent_mention_def split: option.splits)
  have b: "fst (parse_agent_mention U r) = None" if "\<not> begins_with_at (strip r)" for r
  proof (cases "re_match (mention_pattern U) (strip r)")
    case None
    then show ?thesis by (simp add: parse_agent_mention_def)
  next
    case (Some m)
    then have "begins_with_at (strip r)" by (rule mention_needs_at)
    with that show ?thesis by simp
  qed
  from e1 e2 a b show ?thesis by blast
qed

theorem parse_agent_mention_examples_witness:
  "fst (parse_agent_mention ascii_ucd
          (snd (parse_agent_mention ascii_ucd (lit ''@advisor Should I buy?'')))) = None
   \<and> parse_agent_mention ascii_ucd (snd (parse_agent_mention ascii_ucd (lit ''hello there'')))
       = (None, lit ''hello there'')"
proof -
  have p1: "parse_agent_mention ascii_ucd (lit ''@advisor Should I buy?'') =
      (Some (lit ''advisor''), lit ''Should I buy?'')"
    by (simp add: parse_agent_mention_def mention_pattern_def strip_def cls_defs re_defs)
  have p2: "parse_agent_mention ascii_ucd (lit ''hello there'') = (None, lit ''hello there'')"
    by (simp add: parse_agent_mention_def mention_pattern_def strip_def cls_defs re_defs)
  have h1: "\<not> begins_with_at (strip (snd (parse_agent_mention ascii_ucd (lit ''@advisor Should I buy?''))))"
    unfolding p1 by (simp add: begins_with_at_def strip_def lit_def is_space_def)
  have h2: "fst (parse_agent_mention ascii_ucd (lit ''hello there'')) = None"
    unfolding p2 by simp
  from parse_agent_mention_examples [of ascii_ucd "lit ''@advisor Should I buy?''"] h1
    parse_agent_mention_examples [of ascii_ucd "lit ''hello there''"] h2
  show ?thesis by blast
qed

text \<open>
  C5 as stated fails: the remainder of "@a @b c" is "@b c", in which a second parse finds
  the mention of b.
\<close>

theorem parse_agent_mention_twice_counterexample:
  "parse_agent_mention ascii_ucd (lit ''@a @b c'') = (Some (lit ''a''), lit ''@b c'')
   \<and> fst (parse_agent_mention ascii_ucd (snd (parse_agent_mention ascii_ucd (lit ''@a @b c''))))
       = Some (lit ''b'')"
  by (simp add: parse_agent_mention_def mention_pattern_def strip_def cls_defs re_defs)

text \<open>
  C6, as amended: for every input that is entirely a token of one to five upper-case
  ASCII letters, with or without a \<open>$\<close> in front, \<open>extract_ticker_from_query\<close> returns
  that token.
\<close>

theorem extract_ticker_direct:
  "list_all upper_az t \<and> 1 \<le> length t \<and> length t \<le> 5 \<longrightarrow>
   extract_ticker_from_query U t = Some t \<and> extract_ticker_from_query U (36 # t) = Some t"
  using extract_direct by blast

theorem extract_ticker_direct_witness:
  "extract_ticker_from_query ascii_ucd (lit ''AAPL'') = Some (lit ''AAPL'')
   \<and> extract_ticker_from_query ascii_ucd (36 # lit ''AAPL'') = Some (lit ''AAPL'')"
  using extract_ticker_direct [of "lit ''AAPL''" ascii_ucd]
  by (simp add: lit_def upper_az_def)

text \<open>
  C6 as stated fails: the lower-case token "aapl" matches none of the patterns, and the
  result is \<open>None\<close>, not "AAPL".
\<close>

theorem extract_ticker_lower_counterexample:
  "extract_ticker_from_query ascii_ucd (lit ''aapl'') = None"
  by (simp add: qp_defs cls_defs re_defs ascii_ucd_def findall_from.simps)

text \<open>
  C10, as amended: every value that \<open>extract_ticker_from_query\<close> returns consists of one
  to five characters, each an upper-case ASCII letter or one of U+0130 and U+212A (which
  \<open>[A-Z]\<close> matches under \<open>re.IGNORECASE\<close> and \<open>upper\<close> leaves alone). For a query that
  contains neither of these two characters, the value consists of upper-case ASCII
  letters and satisfies \<open>is_valid_ticker\<close>, and \<open>parse_query_intent\<close> never returns an
  invalid result that carries a ticker.
\<close>

theorem extract_ticker_valid:
  "(extract_ticker_from_query U q = Some t \<longrightarrow>
      1 \<le> length t \<and> length t \<le> 5 \<and>
      list_all (\<lambda>c. upper_az c \<or> c = 304 \<or> c = 8490) t \<and>
      (304 \<notin> set q \<and> 8490 \<notin> set q \<longrightarrow> list_all upper_az t \<and> is_valid_ticker U t))
   \<and> (304 \<notin> set q \<and> 8490 \<notin> set q \<longrightarrow>
      \<not> (\<not> qi_valid (parse_query_intent U q) \<and> qi_ticker (parse_query_intent U q) \<noteq> None))"
proof -
  have shape: "ticker_shape q' t'" if "extract_ticker_from_query U q' = Some t'" for q' t'
    using that by (rule extract_shape)
  have valid: "is_valid_ticker U t'"
    if "extract_ticker_from_query U q' = Some t'" "304 \<notin> set q' \<and> 8490 \<notin> set q'" for q' t'
    using shape[OF that(1)] that(2) by (auto simp: ticker_shape_def intro: is_valid_upper_az)
  have a: "extract_ticker_from_query U q = Some t \<longrightarrow>
      1 \<le> length t \<and> length t \<le> 5 \<and>
      list_all (\<lambda>c. upper_az c \<or> c = 304 \<or> c = 8490) t \<and>
      (304 \<notin> set q \<and> 8490 \<notin> set q \<longrightarrow> list_all upper_az t \<and> is_valid_ticker U t)"
    using shape[of q t] valid[of q t] by (auto simp: ticker_shape_def)
  have b: "304 \<notin> set q \<and> 8490 \<notin> set q \<longrightarrow>
      \<not> (\<not> qi_valid (parse_query_intent U q) \<and> qi_ticker (parse_query_intent U q) \<noteq> None)"
  proof (cases "extract_ticker_from_query U q")
    case None
    then show ?thesis by (simp add: parse_query_intent_def Let_def)
  next
    case (Some t')
    show ?thesis
    proof
      assume ok: "304 \<notin> set q \<and> 8490 \<notin> set q"
      from valid[OF Some ok] have v: "is_valid_ticker U t'" .
      from shape[OF Some] have "t' \<noteq> []" by (auto simp: ticker_shape_def)
      with v Some show "\<not> (\<not> qi_valid (parse_query_intent U q) \<and>
          qi_ticker (parse_query_intent U q) \<noteq> None)"
        by (simp add: parse_query_intent_def Let_def)
    qed
  qed
  from a b show ?thesis by blast
qed

theorem extract_ticker_valid_witness:
  "is_valid_ticker ascii_ucd (lit ''TSLA'')
   \<and> qi_valid (parse_query_intent ascii_ucd (lit ''analyze TSLA''))"
proof -
  have e: "extract_ticker_from_query ascii_ucd (lit ''analyze TSLA'') = Some (lit ''TSLA'')"
    by (simp add: qp_defs cls_defs re_defs ascii_ucd_def findall_from.simps)
  have n: "304 \<notin> set (lit ''analyze TSLA'') \<and> 8490 \<notin> set (lit ''analyze TSLA'')"
    by (simp add: lit_def)
  have t: "qi_ticker (parse_query_intent ascii_ucd (lit ''analyze TSLA'')) \<noteq> None"
    by (simp add: qp_defs cls_defs re_defs ascii_ucd_def findall_from.simps)
  from extract_ticker_valid [of ascii_ucd "lit ''analyze TSLA''" "lit ''TSLA''"] e n t
  show ?thesis by blast
qed

text \<open>
  C10 as stated fails: in "analyze K" with the Kelvin sign U+212A for K, the
  case-insensitive \<open>[A-Z]\<close> matches the sign, \<open>upper\<close> leaves it unchanged, the extracted
  value is not ASCII, \<open>is_valid_ticker\<close> rejects it, and \<open>parse_query_intent\<close> returns
  the invalid result with the ticker set.
\<close>

theorem parse_query_intent_kelvin_counterexample:
  "extract_ticker_from_query ascii_ucd (lit ''analyze '' @ [8490]) = Some [8490]
   \<and> \<not> is_valid_ticker ascii_ucd [8490]
   \<and> parse_query_intent ascii_ucd (lit ''analyze '' @ [8490]) =
      \<lparr>qi_ticker = Some [8490], qi_intent = lit ''analyze'', qi_valid = False,
       qi_error = Some (lit ''Invalid ticker symbol: '' @ [8490])\<rparr>"
  by (simp add: qp_defs cls_defs re_defs ascii_ucd_def findall_from.simps)

section \<open>Properties of the message codec\<close>

lemma a2a_response_conversation_id:
  "map_of (a2a_response parts cid pid) (lit ''conversation_id'') = Some (PStr cid)"
  by (simp add: a2a_response_def Let_def lit_def split: option.splits)

lemma a2a_response_metadata:
  "map_of (a2a_response parts cid pid) (lit ''metadata'') = None"
  by (simp add: a2a_response_def Let_def lit_def split: option.splits)

lemma parse_a2a_response:
  "\<exists>p. parse_a2a_message (a2a_response parts cid pid) = Inr p \<and> pm_conversation_id p = PStr cid"
  by (simp add: parse_a2a_message_def Let_def dict_get_def a2a_response_conversation_id
        a2a_response_metadata)

text \<open>
  C7: for every analysis that has a recommendation and every conversation id, parent
  message id and agent id, \<open>parse_a2a_message\<close> applied to the message that
  \<open>format_analysis_response\<close> builds returns (it does not raise) a parsed query whose
  conversation id is the one given to the formatter.
\<close>

theorem format_parse_roundtrip:
  "recommendation analysis \<noteq> None \<longrightarrow>
   (case parse_a2a_message (format_analysis_response R U analysis cid pid agent) of
      Inr p \<Rightarrow> pm_conversation_id p = PStr cid
    | Inl e \<Rightarrow> False)"
proof -
  obtain parts where "format_analysis_response R U analysis cid pid agent = a2a_response parts cid pid"
    by (simp add: format_analysis_response_def Let_def)
  with parse_a2a_response[of parts cid pid] show ?thesis by auto
qed

theorem format_parse_roundtrip_witness:
  "recommendation sample_analysis \<noteq> None \<and>
   (case parse_a2a_message (format_analysis_response blank_rendering ascii_ucd sample_analysis
        (lit ''conv-123'') (Some (lit ''msg-456'')) (lit ''nasdaq-stock-agent'')) of
      Inr p \<Rightarrow> pm_conversation_id p = PStr (lit ''conv-123'')
    | Inl e \<Rightarrow> False)"
  using format_parse_roundtrip [where analysis = sample_analysis and R = blank_rendering
    and U = ascii_ucd and cid = "lit ''conv-123''" and pid = "Some (lit ''msg-456'')"
    and agent = "lit ''nasdaq-stock-agent''"]
  by (simp add: sample_analysis_def)

section \<open>Properties of the bridge\<close>

lemma valid_has_ticker: "qi_valid (parse_query_intent U q) \<Longrightarrow> qi_ticker (parse_query_intent U q) \<noteq> None"
  by (auto simp: parse_query_intent_def Let_def split: option.splits if_splits)

lemma process_stock_query_local:
  "fst (parse_agent_mention U query) = None \<Longrightarrow>
   process_stock_query R U W b query cid pid = Inr (process_local R U W b query cid pid)"
  by (cases "parse_agent_mention U query") (auto simp: process_stock_query_def)

lemma advisor_lookup:
  "fst (lookup_agent (registry_server advisor_world) cfg st target) = PStr (lit ''http://advisor:6000'')"
  by (simp add: lookup_agent_def make_request.simps attempt_def advisor_world_def Let_def
        lit_def split: prod.splits)

text \<open>
  C1 says that \<open>process_stock_query\<close> never lets an exception reach its caller, the
  forwarding branch included. The code does otherwise: for the query "@advisor Should I
  buy AAPL?", with the agent found in the registry and a peer that answers 200 with the
  body \<open>{"error": "busy"}\<close>, the forwarding branch reads \<open>response["message"]\<close>
  outside any \<open>try\<close> and the \<open>KeyError\<close> leaves the method. Without a mention the
  method always returns a message (lemma \<open>process_stock_query_local\<close>).
\<close>

theorem process_stock_query_forward_raises:
  "process_stock_query blank_rendering ascii_ucd advisor_world advisor_bridge
     (lit ''@advisor Should I buy AAPL?'') (lit ''conv-1'') None
   = Inl (KeyError (lit ''message''))"
proof -
  have m: "parse_agent_mention ascii_ucd (lit ''@advisor Should I buy AAPL?'') =
      (Some (lit ''advisor''), lit ''Should I buy AAPL?'')"
    by (simp add: parse_agent_mention_def mention_pattern_def strip_def cls_defs re_defs)
  have s: "send_to_agent advisor_world advisor_bridge (lit ''advisor'') (lit ''Should I buy AAPL?'')
      (lit ''conv-1'') None = PDict [(lit ''error'', PStr (lit ''busy''))]"
    by (simp add: send_to_agent_def advisor_bridge_def advisor_lookup Let_def)
       (simp add: advisor_world_def lit_def)
  show ?thesis
    by (simp add: process_stock_query_def m process_forward_def s and_then_def Let_def)
       (simp add: lit_def)
qed

section \<open>Properties of the adapter\<close>

lemma stop_async_flag: "\<not> is_running (stop_async W a)"
  by (simp add: stop_async_def Let_def split: option.splits prod.splits)

lemma resume_flag: "is_running (hb_adapter (resume h)) = is_running (hb_adapter h)"
  by (simp add: resume_def loop_test_def split: hb_pc.splits nat.splits)

lemma resume_iter_flag: "is_running (hb_adapter ((resume ^^ n) h)) = is_running (hb_adapter h)"
  by (induction n) (simp_all add: resume_flag)

lemma resume_Finished: "pc h = Finished \<Longrightarrow> (resume ^^ n) h = h"
  by (induction n) (simp_all add: resume_def)

lemma resume_sleeping:
  "pc h = Sleeping (Suc n) \<Longrightarrow> resume h = h\<lparr>pc := Sleeping n\<rparr>"
  by (simp add: resume_def)

lemma resume_wake:
  "pc h = Sleeping 0 \<Longrightarrow> resume h = loop_test h"
  by (simp add: resume_def)

lemma sleep_runs_out:
  "pc h = Sleeping k \<Longrightarrow> j \<le> k \<Longrightarrow>
   pc ((resume ^^ j) h) = Sleeping (k - j) \<and> update_calls ((resume ^^ j) h) = update_calls h
   \<and> hb_adapter ((resume ^^ j) h) = hb_adapter h"
proof (induction j)
  case 0
  then show ?case by simp
next
  case (Suc j)
  then have IH: "pc ((resume ^^ j) h) = Sleeping (k - j)"
    "update_calls ((resume ^^ j) h) = update_calls h"
    "hb_adapter ((resume ^^ j) h) = hb_adapter h" by simp_all
  from Suc.prems obtain d where d: "k - j = Suc d" "k - Suc j = d"
    by (cases "k - j") auto
  from IH(1) d(1) have "resume ((resume ^^ j) h) = ((resume ^^ j) h)\<lparr>pc := Sleeping d\<rparr>"
    by (simp add: resume_sleeping)
  with IH d show ?case by simp
qed

lemma stopped_sleep_ends:
  assumes "\<not> is_running (hb_adapter h)" "pc h = Sleeping k"
  shows "pc ((resume ^^ Suc k) h) = Finished \<and> update_calls ((resume ^^ Suc k) h) = update_calls h"
proof -
  from sleep_runs_out[OF assms(2), of k] have
    "pc ((resume ^^ k) h) = Sleeping 0" "update_calls ((resume ^^ k) h) = update_calls h"
    "hb_adapter ((resume ^^ k) h) = hb_adapter h" by simp_all
  then have "resume ((resume ^^ k) h) = loop_test ((resume ^^ k) h)"
    "update_calls ((resume ^^ k) h) = update_calls h"
    "\<not> is_running (hb_adapter ((resume ^^ k) h))"
    using assms(1) by (simp_all add: resume_wake)
  then show ?thesis by (simp add: loop_test_def)
qed

lemma stopped_sleeping_all:
  assumes "\<not> is_running (hb_adapter h)" "pc h = Sleeping k"
  shows "update_calls ((resume ^^ n) h) = update_calls h \<and>
         (Suc k \<le> n \<longrightarrow> pc ((resume ^^ n) h) = Finished)"
proof (cases "n \<le> k")
  case True
  with sleep_runs_out[OF assms(2) True] show ?thesis by simp
next
  case False
  then obtain d where n: "n = d + Suc k" by (metis add.commute less_eqE not_less_eq_eq)
  let ?e = "(resume ^^ Suc k) h"
  from stopped_sleep_ends[OF assms] have e: "pc ?e = Finished" "update_calls ?e = update_calls h"
    by simp_all
  have "(resume ^^ n) h = (resume ^^ d) ?e" unfolding n by (simp only: funpow_add o_apply)
  also have "\<dots> = ?e" using e(1) by (rule resume_Finished)
  finally show ?thesis using e by simp
qed

lemma stopped_update_all:
  assumes "\<not> is_running (hb_adapter h)" "pc h = AwaitUpdate"
  shows "update_calls ((resume ^^ n) h) = update_calls h \<and>
         (32 \<le> n \<longrightarrow> pc ((resume ^^ n) h) = Finished)"
proof (cases n)
  case 0
  then show ?thesis by simp
next
  case (Suc m)
  let ?h1 = "h\<lparr>pc := Sleeping 30\<rparr>"
  have r: "resume h = ?h1" using assms(2) by (simp add: resume_def)
  have "(resume ^^ n) h = (resume ^^ m) ?h1" unfolding Suc by (simp only: funpow_Suc_right o_apply r)
  moreover have "update_calls ((resume ^^ m) ?h1) = update_calls ?h1 \<and>
         (Suc 30 \<le> m \<longrightarrow> pc ((resume ^^ m) ?h1) = Finished)"
    by (rule stopped_sleeping_all) (use assms(1) in simp_all)
  ultimately show ?thesis using Suc by simp
qed

lemma stopped_health_all:
  assumes "\<not> is_running (hb_adapter h)" "pc h = AwaitHealth"
  shows "update_calls ((resume ^^ n) h) \<le> update_calls h + 1 \<and>
         (1 \<le> n \<longrightarrow> update_calls ((resume ^^ n) h) = update_calls h + 1) \<and>
         (33 \<le> n \<longrightarrow> pc ((resume ^^ n) h) = Finished)"
proof (cases n)
  case 0
  then show ?thesis by simp
next
  case (Suc m)
  let ?h1 = "h\<lparr>pc := AwaitUpdate, update_calls := update_calls h + 1\<rparr>"
  have r: "resume h = ?h1" using assms(2) by (simp add: resume_def)
  have "(resume ^^ n) h = (resume ^^ m) ?h1" unfolding Suc by (simp only: funpow_Suc_right o_apply r)
  moreover have "update_calls ((resume ^^ m) ?h1) = update_calls ?h1 \<and>
         (32 \<le> m \<longrightarrow> pc ((resume ^^ m) ?h1) = Finished)"
    by (rule stopped_update_all) (use assms(1) in simp_all)
  ultimately show ?thesis using Suc by simp
qed

lemma stop_heartbeat_fields:
  "\<not> is_running (hb_adapter (stop_heartbeat W h))" "pc (stop_heartbeat W h) = pc h"
  "update_calls (stop_heartbeat W h) = update_calls h"
  by (simp_all add: stop_heartbeat_def stop_async_flag)

text \<open>
  C8, as amended: stopping the adapter ends the heartbeat loop through the running flag
  only. After \<open>stop_async\<close> the flag is false and stays false, and the loop reads it
  when its sleep is over: a loop that is sleeping with k seconds to go is still sleeping
  during those k seconds (the sleep is not cancelled), then ends without a further call of
  \<open>update_status\<close>; a loop that has passed the test and waits for the health status
  still makes that one call of \<open>update_status\<close>, sleeps its 30 seconds and ends. No new
  iteration begins in either case.
\<close>

theorem stop_ends_heartbeat_cooperatively:
  "\<not> is_running (hb_adapter ((resume ^^ n) (stop_heartbeat W h)))
   \<and> (pc h = Sleeping k \<and> j \<le> k \<longrightarrow>
        pc ((resume ^^ j) (stop_heartbeat W h)) = Sleeping (k - j))
   \<and> (pc h = Sleeping k \<longrightarrow>
        pc ((resume ^^ Suc k) (stop_heartbeat W h)) = Finished \<and>
        update_calls ((resume ^^ n) (stop_heartbeat W h)) = update_calls h)
   \<and> (pc h = AwaitUpdate \<longrightarrow>
        pc ((resume ^^ 32) (stop_heartbeat W h)) = Finished \<and>
        update_calls ((resume ^^ n) (stop_heartbeat W h)) = update_calls h)
   \<and> (pc h = AwaitHealth \<longrightarrow>
        pc ((resume ^^ 33) (stop_heartbeat W h)) = Finished \<and>
        update_calls ((resume ^^ n) (stop_heartbeat W h)) \<le> update_calls h + 1)"
proof -
  let ?s = "stop_heartbeat W h"
  note f = stop_heartbeat_fields[of W h]
  have a: "\<not> is_running (hb_adapter ((resume ^^ n) ?s))"
    using f(1) by (simp add: resume_iter_flag)
  have b: "pc h = Sleeping k \<and> j \<le> k \<longrightarrow> pc ((resume ^^ j) ?s) = Sleeping (k - j)"
    using sleep_runs_out[of ?s k j] f(2) by simp
  have c: "pc h = Sleeping k \<longrightarrow>
        pc ((resume ^^ Suc k) ?s) = Finished \<and> update_calls ((resume ^^ n) ?s) = update_calls h"
    using stopped_sleeping_all[of ?s k "Suc k"] stopped_sleeping_all[of ?s k n] f by simp
  have d: "pc h = AwaitUpdate \<longrightarrow>
        pc ((resume ^^ 32) ?s) = Finished \<and> update_calls ((resume ^^ n) ?s) = update_calls h"
    using stopped_update_all[of ?s 32] stopped_update_all[of ?s n] f by simp
  have e: "pc h = AwaitHealth \<longrightarrow>
        pc ((resume ^^ 33) ?s) = Finished \<and> update_calls ((resume ^^ n) ?s) \<le> update_calls h + 1"
    using stopped_health_all[of ?s 33] stopped_health_all[of ?s n] f by simp
  from a b c d e show ?thesis by blast
qed

theorem stop_ends_heartbeat_cooperatively_witness:
  "pc ((resume ^^ 30) (stop_heartbeat (\<lambda>n. Raises TimeoutError)
        \<lparr>hb_adapter = running_adapter, pc = Sleeping 30, update_calls = 4\<rparr>)) = Sleeping 0
   \<and> pc ((resume ^^ 31) (stop_heartbeat (\<lambda>n. Raises TimeoutError)
        \<lparr>hb_adapter = running_adapter, pc = Sleeping 30, update_calls = 4\<rparr>)) = Finished
   \<and> update_calls ((resume ^^ 31) (stop_heartbeat (\<lambda>n. Raises TimeoutError)
        \<lparr>hb_adapter = running_adapter, pc = Sleeping 30, update_calls = 4\<rparr>)) = 4"
  using stop_ends_heartbeat_cooperatively [where W = "\<lambda>n. Raises TimeoutError"
    and h = "\<lparr>hb_adapter = running_adapter, pc = Sleeping 30, update_calls = 4\<rparr>"
    and k = 30 and j = 30 and n = 31]
  by simp

text \<open>
  C8 as stated fails on both counts: 29 seconds after \<open>stop_async\<close> a loop that was
  at the start of its sleep is still sleeping, and a loop that was waiting for the health
  status when \<open>stop_async\<close> ran calls \<open>update_status\<close> afterwards.
\<close>

theorem stop_does_not_cancel_sleep_counterexample:
  "pc ((resume ^^ 29) (stop_heartbeat (\<lambda>n. Raises TimeoutError)
        \<lparr>hb_adapter = running_adapter, pc = Sleeping 30, update_calls = 0\<rparr>)) = Sleeping 1
   \<and> update_calls (resume (stop_heartbeat (\<lambda>n. Raises TimeoutError)
        \<lparr>hb_adapter = running_adapter, pc = AwaitHealth, update_calls = 0\<rparr>)) = 1"
proof -
  let ?W = "\<lambda>n::nat. Raises TimeoutError"
  let ?h = "\<lparr>hb_adapter = running_adapter, pc = Sleeping 30, update_calls = 0\<rparr>"
  have "pc (stop_heartbeat ?W ?h) = Sleeping 30" by (simp add: stop_heartbeat_def)
  from sleep_runs_out[OF this, of 29] have a: "pc ((resume ^^ 29) (stop_heartbeat ?W ?h)) = Sleeping 1"
    by simp
  have b: "update_calls (resume (stop_heartbeat ?W
        \<lparr>hb_adapter = running_adapter, pc = AwaitHealth, update_calls = 0\<rparr>)) = 1"
    by (simp add: resume_def stop_heartbeat_def)
  from a b show ?thesis by blast
qed

end
